theory Spec2Isabelle
  imports Complex_Main "HOL-Library.AList" "HOL-Library.Code_Target_Nat"
begin

section \<open>Strings of the runtime\<close>

text \<open>
  The service is JavaScript: \<^verbatim>\<open>dist/services/pythonService.js\<close> (the Python Service) and
  \<^verbatim>\<open>src/routes/analysis.ts\<close> (the routes). A JavaScript string is modelled as a
  \<^typ>\<open>string\<close>, one \<^typ>\<open>char\<close> per code unit, for code units below 256 (ASCII and
  Latin-1). The functions below are the string methods the source calls, with the names
  of the source: \<^verbatim>\<open>trim\<close>, \<^verbatim>\<open>split('\n')\<close>, \<^verbatim>\<open>join\<close>, \<^verbatim>\<open>includes\<close>, \<^verbatim>\<open>indexOf\<close>,
  \<^verbatim>\<open>substring\<close>, \<^verbatim>\<open>toLowerCase\<close>.
\<close>

definition is_space :: "char \<Rightarrow> bool" where
  \<comment> \<open>White space and line terminators of ECMAScript below code unit 256: what
      \<^verbatim>\<open>trim()\<close> strips and \<^verbatim>\<open>\s\<close> matches.\<close>
  "is_space c = (c \<in> set [CHR 0x09, CHR 0x0A, CHR 0x0B, CHR 0x0C, CHR 0x0D, CHR 0x20, CHR 0xA0])"

definition trim :: "string \<Rightarrow> string" where
  "trim s = rev (dropWhile is_space (rev (dropWhile is_space s)))"

fun split_nl :: "string \<Rightarrow> string list" where
  \<comment> \<open>\<^verbatim>\<open>s.split('\n')\<close>: never empty, \<^verbatim>\<open>''.split('\n')\<close> is \<^verbatim>\<open>['']\<close>.\<close>
  "split_nl [] = [[]]"
| "split_nl (c # cs) =
     (if c = CHR 0x0A then [] # split_nl cs
      else (case split_nl cs of [] \<Rightarrow> [[c]] | l # ls \<Rightarrow> (c # l) # ls))"

fun join :: "string \<Rightarrow> string list \<Rightarrow> string" where
  \<comment> \<open>\<^verbatim>\<open>xs.join(sep)\<close>\<close>
  "join sep [] = []"
| "join sep [x] = x"
| "join sep (x # y # ys) = x @ sep @ join sep (y # ys)"

fun starts_with :: "string \<Rightarrow> string \<Rightarrow> bool" where
  "starts_with s [] = True"
| "starts_with [] (p # ps) = False"
| "starts_with (c # cs) (p # ps) = (c = p \<and> starts_with cs ps)"

fun str_includes :: "string \<Rightarrow> string \<Rightarrow> bool" where
  \<comment> \<open>\<^verbatim>\<open>s.includes(p)\<close>\<close>
  "str_includes [] p = (p = [])"
| "str_includes (c # cs) p = (starts_with (c # cs) p \<or> str_includes cs p)"

fun indexOf :: "string \<Rightarrow> string \<Rightarrow> nat option" where
  \<comment> \<open>\<^verbatim>\<open>s.indexOf(p)\<close>: the first index where \<open>p\<close> occurs; \<open>None\<close> is the source's
      \<^verbatim>\<open>-1\<close>.\<close>
  "indexOf [] p = (if p = [] then Some 0 else None)"
| "indexOf (c # cs) p =
     (if starts_with (c # cs) p then Some 0 else map_option Suc (indexOf cs p))"

definition substring :: "string \<Rightarrow> nat \<Rightarrow> nat \<Rightarrow> string" where
  \<comment> \<open>\<^verbatim>\<open>s.substring(a, b)\<close>: both indices are clamped to the length, and they are
      swapped when the first is the larger.\<close>
  "substring s a b =
     (let a' = min a (length s); b' = min b (length s);
          lo = min a' b'; hi = max a' b'
      in take (hi - lo) (drop lo s))"

definition toLowerChar :: "char \<Rightarrow> char" where
  "toLowerChar c =
     (let n = (of_char c :: nat)
      in if (65 \<le> n \<and> n \<le> 90) \<or> (192 \<le> n \<and> n \<le> 222 \<and> n \<noteq> 215)
         then char_of (n + 32) else c)"

definition toLowerCase :: "string \<Rightarrow> string" where
  "toLowerCase s = map toLowerChar s"

fun show_nat :: "nat \<Rightarrow> string" where
  "show_nat n =
     (if n < 10 then [char_of (48 + n)]
      else show_nat (n div 10) @ [char_of (48 + n mod 10)])"

definition show_int :: "int \<Rightarrow> string" where
  "show_int i = (if i < 0 then CHR ''-'' # show_nat (nat (- i)) else show_nat (nat i))"

section \<open>The Result Resolver: a run that exits with a code other than 0\<close>

text \<open>
  The \<^verbatim>\<open>close\<close> handler of \<^verbatim>\<open>runAnalysis\<close> receives the exit code, a number or
  \<^verbatim>\<open>null\<close> (the process was ended by a signal): \<^typ>\<open>int option\<close>, \<open>None\<close> for
  \<^verbatim>\<open>null\<close>. The promise is rejected with an \<^verbatim>\<open>Error\<close>: its message, and for a
  failed exit the fields \<^verbatim>\<open>code\<close>, \<^verbatim>\<open>stdout\<close> and \<^verbatim>\<open>stderr\<close> the handler adds.
\<close>

datatype job_error =
    PlainError string
  | ExitError string "int option" string string

fun error_message :: "job_error \<Rightarrow> string" where
  "error_message (PlainError m) = m"
| "error_message (ExitError m c out err) = m"

definition show_code :: "int option \<Rightarrow> string" where
  \<comment> \<open>the exit code inside a template literal\<close>
  "show_code c = (case c of None \<Rightarrow> ''null'' | Some i \<Rightarrow> show_int i)"

definition nonblank_lines :: "string \<Rightarrow> string list" where
  \<comment> \<open>\<^verbatim>\<open>s.split('\n').filter(line => line.trim())\<close>\<close>
  "nonblank_lines s = filter (\<lambda>line. trim line \<noteq> []) (split_nl s)"

definition error_lines :: "string \<Rightarrow> string list" where
  \<comment> \<open>the filter of \<^verbatim>\<open>stdoutLines\<close>\<close>
  "error_lines s =
     filter (\<lambda>line. trim line \<noteq> [] \<and>
                    (str_includes (toLowerCase line) ''error'' \<or>
                     str_includes (toLowerCase line) ''exception'' \<or>
                     str_includes (toLowerCase line) ''failed''))
       (split_nl s)"

definition last_elem :: "'a list \<Rightarrow> 'a option" where
  \<comment> \<open>\<^verbatim>\<open>xs[xs.length - 1]\<close>: \<^verbatim>\<open>undefined\<close> (\<open>None\<close>) on the empty array\<close>
  "last_elem xs = (if xs = [] then None else Some (last xs))"

definition exit_error_message :: "int option \<Rightarrow> string \<Rightarrow> string \<Rightarrow> string" where
  "exit_error_message code out err =
     (let errorMessage = ''Python process exited with code '' @ show_code code
      in if err \<noteq> [] then
           (let stderrLines = nonblank_lines err;
                lastErrorLine = last_elem stderrLines
            in if (case lastErrorLine of None \<Rightarrow> False
                   | Some l \<Rightarrow> l \<noteq> [] \<and> \<not> str_includes l ''Traceback'')
               then (case lastErrorLine of None \<Rightarrow> errorMessage | Some l \<Rightarrow> l)
               else if 0 < length stderrLines then join ''; '' stderrLines
               else errorMessage)
         else if out \<noteq> [] then
           (let stdoutLines = error_lines out
            in if 0 < length stdoutLines then last stdoutLines else errorMessage)
         else errorMessage)"

definition exit_failure :: "int option \<Rightarrow> string \<Rightarrow> string \<Rightarrow> job_error" where
  \<comment> \<open>the \<^verbatim>\<open>Error\<close> the handler rejects with when \<^verbatim>\<open>code !== 0\<close>\<close>
  "exit_failure code out err = ExitError (exit_error_message code out err) code out err"

section \<open>Values, the environment and paths\<close>

text \<open>
  A JavaScript value as \<^verbatim>\<open>JSON.parse\<close> returns it and as the handlers extend it. An object
  is the list of its own properties in insertion order; an array carries its elements and
  the named properties assigned to it. A number is an IEEE 754 binary64 value: \<open>JNum r\<close> is
  the finite double whose value is the rational \<open>r\<close> (the positive zero for \<open>0\<close>),
  \<open>JNegZero\<close> the negative zero, \<open>JInfinity neg\<close> an infinity (the negative one when
  \<open>neg\<close>), \<open>JNaN\<close> is \<^verbatim>\<open>NaN\<close>.
\<close>

datatype jsval =
    JNull
  | JBool bool
  | JNum rat
  | JNegZero
  | JInfinity bool
  | JNaN
  | JStr string
  | JArr "jsval list" "(string \<times> jsval) list"
  | JObj "(string \<times> jsval) list"

fun get_prop :: "jsval \<Rightarrow> string \<Rightarrow> jsval option" where
  \<comment> \<open>\<^verbatim>\<open>v.k\<close> for a named own property; \<open>None\<close> is \<^verbatim>\<open>undefined\<close>\<close>
  "get_prop (JObj kvs) k = map_of kvs k"
| "get_prop (JArr xs kvs) k = map_of kvs k"
| "get_prop v k = None"

fun truthy :: "jsval option \<Rightarrow> bool" where
  "truthy None = False"
| "truthy (Some JNull) = False"
| "truthy (Some (JBool b)) = b"
| "truthy (Some (JNum r)) = (r \<noteq> 0)"
| "truthy (Some JNegZero) = False"
| "truthy (Some JNaN) = False"
| "truthy (Some (JStr s)) = (s \<noteq> [])"
| "truthy (Some v) = True"

subsection \<open>Numbers\<close>

text \<open>
  The arithmetic of the engine on doubles, as far as the module uses it. \<open>to_double neg a\<close>
  is the double nearest to the real number \<open>a\<close> (\<open>- a\<close> when \<open>neg\<close>), for a rational
  \<open>a\<close> that is not negative: round to nearest, ties to the even significand, with gradual
  underflow down to the signed zero and overflow to the infinity. The binade of \<open>a\<close> is
  \<open>ilog2 a\<close>, held at \<open>- 1022\<close> for the subnormal range; a double of that binade is a
  multiple of \<open>pow2 (e - 52)\<close> with a significand below \<open>2 ^ 53\<close>.
\<close>

function log2_int :: "int \<Rightarrow> int" where
  \<comment> \<open>\<open>\<lfloor>log\<^sub>2 n\<rfloor>\<close> for \<open>n \<ge> 1\<close>\<close>
  "log2_int n = (if n < 2 then 0 else 1 + log2_int (n div 2))"
  by pat_completeness auto

termination log2_int
  by (relation "measure nat") auto

declare log2_int.simps [simp del]

definition pow2 :: "int \<Rightarrow> rat" where
  "pow2 e = (if 0 \<le> e then 2 ^ nat e else 1 / 2 ^ nat (- e))"

definition ilog2 :: "rat \<Rightarrow> int" where
  \<comment> \<open>for \<open>a > 0\<close>, the \<open>e\<close> with \<open>pow2 e \<le> a < pow2 (e + 1)\<close>\<close>
  "ilog2 a =
     (if 1 \<le> a then log2_int \<lfloor>a\<rfloor>
      else - (1 + log2_int (\<lceil>1 / a\<rceil> - 1)))"

definition round_half_even :: "rat \<Rightarrow> int" where
  "round_half_even m =
     (let f = \<lfloor>m\<rfloor>; d = m - of_int f
      in if d < 1 / 2 then f
         else if 1 / 2 < d then f + 1
         else if even f then f else f + 1)"

definition signed_zero :: "bool \<Rightarrow> jsval" where
  "signed_zero neg = (if neg then JNegZero else JNum 0)"

definition to_double :: "bool \<Rightarrow> rat \<Rightarrow> jsval" where
  "to_double neg a =
     (if a \<le> 0 then signed_zero neg
      else
     (let e = max (ilog2 a) (- 1022)
      in if 1024 \<le> e then JInfinity neg
         else
     (let ulp = pow2 (e - 52);
          n = round_half_even (a / ulp)
      in if e = 1023 \<and> 2 ^ 53 \<le> n then JInfinity neg
         else if n = 0 then signed_zero neg
         else JNum ((if neg then - 1 else 1) * of_int n * ulp))))"

fun divide_by_100 :: "jsval \<Rightarrow> jsval" where
  \<comment> \<open>\<^verbatim>\<open>x / 100\<close> for a number \<open>x\<close> (the module divides nothing else): the double
      nearest to the exact quotient\<close>
  "divide_by_100 (JNum r) = to_double (r < 0) (\<bar>r\<bar> / 100)"
| "divide_by_100 JNegZero = JNegZero"
| "divide_by_100 (JInfinity neg) = JInfinity neg"
| "divide_by_100 v = JNaN"

subsection \<open>The environment\<close>

datatype fs_entry = Readable string | Unreadable

text \<open>
  What the module takes from its host. \<open>json_parse\<close> is \<^verbatim>\<open>JSON.parse\<close>, \<open>Inl\<close> carrying
  the message of the \<^verbatim>\<open>SyntaxError\<close> it throws. \<open>type_error v k\<close> is the message of the
  \<^verbatim>\<open>TypeError\<close> the engine throws when property \<open>k\<close> of \<open>v\<close> is assigned and \<open>v\<close> is
  \<^verbatim>\<open>null\<close> or a primitive (the module is an ES module, hence strict). \<open>files\<close> is the
  file system by path: \<open>None\<close> where \<^verbatim>\<open>existsSync\<close> is false, \<open>Unreadable\<close> where
  \<^verbatim>\<open>readFileSync\<close> throws. \<open>dirname\<close> is \<^verbatim>\<open>__dirname\<close>, an absolute POSIX path.
  \<open>now k\<close> is what the \<open>k\<close>-th call of \<^verbatim>\<open>Date.now()\<close> inside \<^verbatim>\<open>runAnalysis\<close> returns,
  a whole number of milliseconds (a time value is below \<open>2\<^sup>5\<^sup>3\<close>, hence a double).
\<close>

record env =
  json_parse :: "string \<Rightarrow> string + jsval"
  type_error :: "jsval \<Rightarrow> string \<Rightarrow> string"
  files :: "string \<Rightarrow> fs_entry option"
  dirname :: string
  now :: "nat \<Rightarrow> nat"

fun set_prop :: "env \<Rightarrow> jsval \<Rightarrow> string \<Rightarrow> jsval \<Rightarrow> string + jsval" where
  \<comment> \<open>\<^verbatim>\<open>v.k = x\<close>: \<open>Inl\<close> is the message of the \<^verbatim>\<open>TypeError\<close>\<close>
  "set_prop E (JObj kvs) k x = Inr (JObj (AList.update k x kvs))"
| "set_prop E (JArr xs kvs) k x = Inr (JArr xs (AList.update k x kvs))"
| "set_prop E v k x = Inl (type_error E v k)"

fun split_on :: "char \<Rightarrow> string \<Rightarrow> string list" where
  "split_on d [] = [[]]"
| "split_on d (c # cs) =
     (if c = d then [] # split_on d cs
      else (case split_on d cs of [] \<Rightarrow> [[c]] | l # ls \<Rightarrow> (c # l) # ls))"

fun normalize_segments :: "string list \<Rightarrow> string list \<Rightarrow> string list" where
  \<comment> \<open>the segments of an absolute path, \<^verbatim>\<open>.\<close> and empty segments dropped, \<^verbatim>\<open>..\<close>
      removing the segment before it (none at the root); the first argument is the
      path so far, innermost segment first\<close>
  "normalize_segments acc [] = rev acc"
| "normalize_segments acc (x # xs) =
     (if x = [] \<or> x = ''.'' then normalize_segments acc xs
      else if x = ''..'' then normalize_segments (tl acc) xs
      else normalize_segments (x # acc) xs)"

definition render_path :: "string list \<Rightarrow> string" where
  "render_path segs = (if segs = [] then ''/'' else concat (map (\<lambda>x. CHR ''/'' # x) segs))"

definition path_resolve :: "string \<Rightarrow> string \<Rightarrow> string" where
  \<comment> \<open>\<^verbatim>\<open>path.resolve(d, rel)\<close> for an absolute \<open>d\<close> and a relative \<open>rel\<close>\<close>
  "path_resolve d rel = render_path (normalize_segments [] (split_on CHR ''/'' (d @ ''/'' @ rel)))"

definition path_join :: "string \<Rightarrow> string \<Rightarrow> string" where
  \<comment> \<open>\<^verbatim>\<open>path.join(d, rel)\<close> for an absolute \<open>d\<close> and a non-empty \<open>rel\<close>: normalised, a
      trailing separator kept\<close>
  "path_join d rel =
     (let segs = normalize_segments [] (split_on CHR ''/'' (d @ ''/'' @ rel))
      in if segs \<noteq> [] \<and> rel \<noteq> [] \<and> last rel = CHR ''/'' then render_path segs @ ''/''
         else render_path segs)"

definition projectRoot :: "env \<Rightarrow> string" where
  \<comment> \<open>line 19: the directory of \<^verbatim>\<open>main.py\<close>, passed to \<^verbatim>\<open>spawn\<close> as \<^verbatim>\<open>cwd\<close>\<close>
  "projectRoot E = path_resolve (dirname E) ''../..''"

definition pythonScript :: "env \<Rightarrow> string" where
  "pythonScript E = path_resolve (projectRoot E) ''main.py''"

section \<open>The regular expressions of the source\<close>

text \<open>
  Each regular expression of the source is written out as the function the engine's
  backtracking matcher computes for it. A match is tried at index 0, 1, 2, ... of the
  input and the first index that succeeds wins (\<open>first_match\<close>). In each pattern below a
  greedy repetition is followed by a character outside its class (\<^verbatim>\<open>[^:]*:\<close>,
  \<^verbatim>\<open>[\d.]+%\<close>, \<^verbatim>\<open>\s*\<close> before a non-space), so giving characters back never helps and the
  attempt at one index is the deterministic scan written here. With the flag \<^verbatim>\<open>i\<close> an
  ASCII letter of the pattern matches both of its cases and nothing else.
\<close>

fun first_match :: "(string \<Rightarrow> 'a option) \<Rightarrow> string \<Rightarrow> 'a option" where
  "first_match m [] = m []"
| "first_match m (c # cs) =
     (case m (c # cs) of Some r \<Rightarrow> Some r | None \<Rightarrow> first_match m cs)"

definition ascii_lower :: "char \<Rightarrow> char" where
  "ascii_lower c =
     (let n = (of_char c :: nat) in if 65 \<le> n \<and> n \<le> 90 then char_of (n + 32) else c)"

fun lit_ci :: "string \<Rightarrow> string \<Rightarrow> string option" where
  \<comment> \<open>a literal under the flag \<^verbatim>\<open>i\<close>, at the start of the input: the rest after it\<close>
  "lit_ci [] s = Some s"
| "lit_ci (p # ps) [] = None"
| "lit_ci (p # ps) (c # cs) =
     (if ascii_lower c = ascii_lower p then lit_ci ps cs else None)"

fun expect_char :: "char \<Rightarrow> string \<Rightarrow> string option" where
  "expect_char d [] = None"
| "expect_char d (c # cs) = (if c = d then Some cs else None)"

definition is_digit :: "char \<Rightarrow> bool" where
  "is_digit c = (let n = (of_char c :: nat) in 48 \<le> n \<and> n \<le> 57)"

definition is_word :: "char \<Rightarrow> bool" where
  \<comment> \<open>\<^verbatim>\<open>\w\<close>\<close>
  "is_word c =
     (let n = (of_char c :: nat)
      in (48 \<le> n \<and> n \<le> 57) \<or> (65 \<le> n \<and> n \<le> 90) \<or> (97 \<le> n \<and> n \<le> 122) \<or> n = 95)"

definition is_digit_or_dot :: "char \<Rightarrow> bool" where
  \<comment> \<open>\<^verbatim>\<open>[\d.]\<close>\<close>
  "is_digit_or_dot c = (is_digit c \<or> c = CHR ''.'')"

definition bracket_at :: "string \<Rightarrow> string option" where
  \<comment> \<open>\<^verbatim>\<open>/\[([^\]]+)\]/\<close> at the start of the input: group 1\<close>
  "bracket_at s =
     (case expect_char CHR ''['' s of
        None \<Rightarrow> None
      | Some r \<Rightarrow>
          (let label = takeWhile (\<lambda>c. c \<noteq> CHR '']'') r
           in if label \<noteq> [] \<and> dropWhile (\<lambda>c. c \<noteq> CHR '']'') r \<noteq> [] then Some label
              else None))"

definition stepMatch :: "string \<Rightarrow> string option" where
  \<comment> \<open>\<^verbatim>\<open>line.match(/\[([^\]]+)\]/)\<close>, group 1\<close>
  "stepMatch line = first_match bracket_at line"

section \<open>The Result Resolver: a run that exits with code 0\<close>

subsection \<open>Heuristic text extraction: \<^verbatim>\<open>parseTextOutput\<close>\<close>

definition extractValue :: "string \<Rightarrow> (string \<Rightarrow> string option) \<Rightarrow> string option" where
  \<comment> \<open>\<^verbatim>\<open>extractValue(text, regex)\<close>: group 1 of the first match, trimmed, or \<^verbatim>\<open>null\<close>\<close>
  "extractValue text re = map_option trim (first_match re text)"

definition recommendation_at :: "string \<Rightarrow> string option" where
  \<comment> \<open>\<^verbatim>\<open>/Recommendation:\s*(\w+)/i\<close> at the start of the input\<close>
  "recommendation_at s =
     (case lit_ci ''Recommendation:'' s of
        None \<Rightarrow> None
      | Some r \<Rightarrow>
          (let w = takeWhile is_word (dropWhile is_space r)
           in if w = [] then None else Some w))"

definition confidence_at :: "string \<Rightarrow> string option" where
  \<comment> \<open>\<^verbatim>\<open>/Confidence Score:\s*([\d.]+)/i\<close> at the start of the input\<close>
  "confidence_at s =
     (case lit_ci ''Confidence Score:'' s of
        None \<Rightarrow> None
      | Some r \<Rightarrow>
          (let w = takeWhile is_digit_or_dot (dropWhile is_space r)
           in if w = [] then None else Some w))"

fun until_memo :: "string \<Rightarrow> string" where
  \<comment> \<open>\<^verbatim>\<open>([\s\S]*?)(?=\nInvestment memo|$)\<close>: the shortest prefix after which the
      look-ahead holds\<close>
  "until_memo [] = []"
| "until_memo (c # cs) =
     (if lit_ci (CHR 0x0A # ''Investment memo'') (c # cs) \<noteq> None then []
      else c # until_memo cs)"

definition scenarios_at :: "string \<Rightarrow> string option" where
  \<comment> \<open>\<^verbatim>\<open>/Scenarios:([\s\S]*?)(?=\nInvestment memo|$)/i\<close> at the start of the input\<close>
  "scenarios_at s =
     (case lit_ci ''Scenarios:'' s of None \<Rightarrow> None | Some r \<Rightarrow> Some (until_memo r))"

definition scenario_at :: "string \<Rightarrow> string \<Rightarrow> (string \<times> string) option" where
  \<comment> \<open>\<^verbatim>\<open>new RegExp(`${scenario}[^:]*:\\s*([+-]?[\\d.]+)%[^,]*,\\s*(\\d+)%`, 'i')\<close> at the
      start of the input: groups 1 and 2\<close>
  "scenario_at scenario s =
     (case lit_ci scenario s of
        None \<Rightarrow> None
      | Some r0 \<Rightarrow>
     (case expect_char CHR '':'' (dropWhile (\<lambda>c. c \<noteq> CHR '':'') r0) of
        None \<Rightarrow> None
      | Some r1 \<Rightarrow>
     (let r2 = dropWhile is_space r1;
          sign = (case r2 of [] \<Rightarrow> [] | c # cs \<Rightarrow> if c = CHR ''+'' \<or> c = CHR ''-'' then [c] else []);
          r3 = drop (length sign) r2;
          num = takeWhile is_digit_or_dot r3
      in if num = [] then None
         else
     (case expect_char CHR ''%'' (dropWhile is_digit_or_dot r3) of
        None \<Rightarrow> None
      | Some r4 \<Rightarrow>
     (case expect_char CHR '','' (dropWhile (\<lambda>c. c \<noteq> CHR '','') r4) of
        None \<Rightarrow> None
      | Some r5 \<Rightarrow>
     (let r6 = dropWhile is_space r5;
          prob = takeWhile is_digit r6
      in if prob = [] then None
         else
     (case expect_char CHR ''%'' (dropWhile is_digit r6) of
        None \<Rightarrow> None
      | Some r7 \<Rightarrow> Some (sign @ num, prob))))))))"

definition digits_value :: "string \<Rightarrow> nat" where
  "digits_value ds = foldl (\<lambda>a c. 10 * a + (of_char c - 48)) 0 ds"

definition parseFloat :: "string \<Rightarrow> jsval" where
  \<comment> \<open>\<^verbatim>\<open>parseFloat\<close> on the strings the patterns capture (signs, digits and dots; no
      exponent can occur): the longest prefix that is a decimal literal, \<^verbatim>\<open>NaN\<close> when there
      is none; the number is the double nearest to the value of the literal, as V8 computes
      it for a literal of any length\<close>
  "parseFloat s =
     (let t = dropWhile is_space s;
          neg = (t \<noteq> [] \<and> hd t = CHR ''-'');
          u = (if t \<noteq> [] \<and> (hd t = CHR ''-'' \<or> hd t = CHR ''+'') then tl t else t);
          ip = takeWhile is_digit u;
          r = dropWhile is_digit u;
          fp = (if r \<noteq> [] \<and> hd r = CHR ''.'' then takeWhile is_digit (tl r) else [])
      in if ip = [] \<and> fp = [] then JNaN
         else to_double neg
                (of_nat (digits_value ip) + of_nat (digits_value fp) / 10 ^ length fp))"

definition percent :: "string \<Rightarrow> jsval" where
  \<comment> \<open>\<^verbatim>\<open>parseFloat(match[k]) / 100\<close>\<close>
  "percent g = divide_by_100 (parseFloat g)"

definition scenario_entry :: "string \<Rightarrow> string \<Rightarrow> (string \<times> jsval) option" where
  \<comment> \<open>the body of the \<^verbatim>\<open>forEach\<close>: the property it adds to \<^verbatim>\<open>result.scenarios\<close>\<close>
  "scenario_entry scenariosText scenario =
     (case first_match (scenario_at scenario) scenariosText of
        None \<Rightarrow> None
      | Some (g1, g2) \<Rightarrow>
          Some (scenario, JObj [(''return'', percent g1), (''prob'', percent g2)]))"

definition scenarios_of :: "string \<Rightarrow> (string \<times> jsval) list" where
  "scenarios_of output =
     (case first_match scenarios_at output of
        None \<Rightarrow> []
      | Some scenariosText \<Rightarrow>
          List.map_filter (scenario_entry scenariosText) [''bull'', ''base'', ''bear''])"

definition confidence_of :: "string \<Rightarrow> jsval" where
  \<comment> \<open>\<^verbatim>\<open>parseFloat(extractValue(output, ...) || '0') || 0\<close>\<close>
  "confidence_of output =
     (let t = (case extractValue output confidence_at of
                 None \<Rightarrow> ''0'' | Some v \<Rightarrow> if v = [] then ''0'' else v);
          v = parseFloat t
      in if truthy (Some v) then v else JNum 0)"

definition parseTextOutput :: "string \<Rightarrow> jsval" where
  "parseTextOutput output =
     JObj [(''recommendation'',
              JStr (case extractValue output recommendation_at of None \<Rightarrow> [] | Some v \<Rightarrow> v)),
           (''confidence_score'', confidence_of output),
           (''scenarios'', JObj (scenarios_of output)),
           (''memo'', JStr []),
           (''progressMessages'', JArr [] [])]"

subsection \<open>The memo file: \<^verbatim>\<open>extractMemoPath\<close>\<close>

definition memo_at :: "string \<Rightarrow> string option" where
  \<comment> \<open>\<^verbatim>\<open>/Investment memo saved to:\s*(outputs[\/\\][^\s\n]+)/i\<close> at the start of the
      input: group 1, as the input spells it\<close>
  "memo_at s =
     (case lit_ci ''Investment memo saved to:'' s of
        None \<Rightarrow> None
      | Some r0 \<Rightarrow>
     (let r1 = dropWhile is_space r0
      in case lit_ci ''outputs'' r1 of
           None \<Rightarrow> None
         | Some r2 \<Rightarrow>
     (case r2 of
        [] \<Rightarrow> None
      | c # r3 \<Rightarrow>
          (let name = takeWhile (\<lambda>x. \<not> is_space x) r3
           in if (c = CHR ''/'' \<or> c = CHR 0x5C) \<and> name \<noteq> []
              then Some (take 7 r1 @ [c] @ name) else None))))"

definition extractMemoPath :: "env \<Rightarrow> string \<Rightarrow> string option" where
  \<comment> \<open>On POSIX \<^verbatim>\<open>path.sep\<close> is \<^verbatim>\<open>/\<close> and the \<^verbatim>\<open>replace\<close> changes nothing. The directory
      is \<^verbatim>\<open>path.resolve(__dirname, '../../../..')\<close>.\<close>
  "extractMemoPath E output =
     (case first_match memo_at output of
        None \<Rightarrow> None
      | Some relativePath \<Rightarrow>
          Some (path_join (path_resolve (dirname E) ''../../../..'') relativePath))"

subsection \<open>The \<^verbatim>\<open>close\<close> handler\<close>

record progress =
  step :: string
  message :: string
  timestamp :: nat

definition progress_js :: "progress \<Rightarrow> jsval" where
  "progress_js p =
     JObj [(''step'', JStr (step p)), (''message'', JStr (message p)),
           (''timestamp'', JNum (of_nat (timestamp p)))]"

definition progress_array :: "progress list \<Rightarrow> jsval" where
  "progress_array ps = JArr (map progress_js ps) []"

definition JSON_OUTPUT_START :: string where
  "JSON_OUTPUT_START = ''===JSON_OUTPUT_START===''"

definition JSON_OUTPUT_END :: string where
  "JSON_OUTPUT_END = ''===JSON_OUTPUT_END===''"

definition jsonStr :: "string \<Rightarrow> string option" where
  \<comment> \<open>lines 183 to 186: the text handed to \<^verbatim>\<open>JSON.parse\<close> when both markers are found\<close>
  "jsonStr out =
     (case indexOf out JSON_OUTPUT_START of
        None \<Rightarrow> None
      | Some jsonStart \<Rightarrow>
          (case indexOf out JSON_OUTPUT_END of
             None \<Rightarrow> None
           | Some jsonEnd \<Rightarrow> Some (trim (substring out (jsonStart + 24) jsonEnd))))"

definition jsonMatch :: "string \<Rightarrow> string option" where
  \<comment> \<open>\<^verbatim>\<open>stdout.match(/\{[\s\S]*\}/)\<close>: from the first \<^verbatim>\<open>{\<close> to the last \<^verbatim>\<open>}\<close> after it\<close>
  "jsonMatch out =
     (case dropWhile (\<lambda>c. c \<noteq> CHR ''{'') out of
        [] \<Rightarrow> None
      | c # rest \<Rightarrow>
          if CHR ''}'' \<in> set rest
          then Some (c # rev (dropWhile (\<lambda>x. x \<noteq> CHR ''}'') (rev rest)))
          else None)"

definition attach_memo :: "env \<Rightarrow> string \<Rightarrow> jsval \<Rightarrow> jsval" where
  \<comment> \<open>The block "Try to read memo file": an exception of its \<^verbatim>\<open>try\<close> (the read's, or the
      assignment's on a value that is no object) is logged and dropped.\<close>
  "attach_memo E out result =
     (case extractMemoPath E out of
        None \<Rightarrow> result
      | Some memoPath \<Rightarrow>
          (case files E memoPath of
             None \<Rightarrow> result
           | Some Unreadable \<Rightarrow> result
           | Some (Readable content) \<Rightarrow>
               (case set_prop E result ''memo'' (JStr content) of
                  Inl readError \<Rightarrow> result
                | Inr r \<Rightarrow> r)))"

definition deliver :: "env \<Rightarrow> string \<Rightarrow> progress list \<Rightarrow> jsval \<Rightarrow> string + jsval" where
  \<comment> \<open>the common tail of the three branches: memo, then \<^verbatim>\<open>progressMessages\<close>; the value
      is what \<^verbatim>\<open>resolve\<close> receives, \<open>Inl\<close> an exception\<close>
  "deliver E out pm result =
     set_prop E (attach_memo E out result) ''progressMessages'' (progress_array pm)"

definition try_block :: "env \<Rightarrow> string \<Rightarrow> progress list \<Rightarrow> string + jsval" where
  \<comment> \<open>lines 181 to 236\<close>
  "try_block E out pm =
     (case jsonStr out of
        Some text \<Rightarrow>
          (case json_parse E text of
             Inl e \<Rightarrow> Inl e
           | Inr result \<Rightarrow> deliver E out pm result)
      | None \<Rightarrow>
          (case jsonMatch out of
             Some text \<Rightarrow>
               (case json_parse E text of
                  Inl e \<Rightarrow> Inl e
                | Inr result \<Rightarrow> deliver E out pm result)
           | None \<Rightarrow> deliver E out pm (parseTextOutput out)))"

definition catch_block :: "env \<Rightarrow> string \<Rightarrow> progress list \<Rightarrow> string \<Rightarrow> string + jsval" where
  \<comment> \<open>lines 237 to 254; the argument is \<^verbatim>\<open>parseError.message\<close>\<close>
  "catch_block E out pm msg =
     (case deliver E out pm (parseTextOutput out) of
        Inl e \<Rightarrow> Inl e
      | Inr result \<Rightarrow> set_prop E result ''parseError'' (JStr msg))"

definition resolve_ok :: "env \<Rightarrow> string \<Rightarrow> progress list \<Rightarrow> string + jsval" where
  \<comment> \<open>the handler for exit code 0: the value the promise is resolved with, or \<open>Inl\<close> for
      an exception that leaves the handler\<close>
  "resolve_ok E out pm =
     (case try_block E out pm of
        Inr result \<Rightarrow> Inr result
      | Inl msg \<Rightarrow> catch_block E out pm msg)"

section \<open>The Job: \<^verbatim>\<open>runAnalysis\<close>\<close>

text \<open>
  The variables the closure of \<^verbatim>\<open>runAnalysis\<close> holds, and the state of its promise and
  of its subprocess. \<open>settled\<close> is the promise: \<open>None\<close> while pending, then the rejection
  (\<open>Inl\<close>) or the value (\<open>Inr\<close>) for good. \<open>killed\<close> says that \<^verbatim>\<open>pythonProcess.kill()\<close>
  has been called, \<open>watchdog\<close> that the 60 minute timer is armed, \<open>reads\<close> counts the calls
  of \<^verbatim>\<open>Date.now()\<close>, \<open>uncaught\<close> lists the exceptions that left a handler.
\<close>

record job =
  spawned :: bool
  stdout :: string
  stderr :: string
  progressMessages :: "progress list"
  processStarted :: bool
  reads :: nat
  settled :: "(job_error + jsval) option"
  killed :: bool
  watchdog :: bool
  uncaught :: "string list"

definition settle :: "job_error + jsval \<Rightarrow> job \<Rightarrow> job" where
  \<comment> \<open>\<^verbatim>\<open>resolve(v)\<close> and \<^verbatim>\<open>reject(e)\<close>: no effect on a promise already settled\<close>
  "settle v j = (if settled j = None then j\<lparr>settled := Some v\<rparr> else j)"

definition runAnalysis :: "env \<Rightarrow> bool \<Rightarrow> job \<times> progress list" where
  \<comment> \<open>The executor of the promise, lines 19 to 77: the job as it stands when
      \<^verbatim>\<open>runAnalysis\<close> returns, and the calls of \<^verbatim>\<open>onProgress\<close> made so far. The second
      argument says whether \<^verbatim>\<open>onProgress\<close> was given. (The choice of the interpreter, lines
      28 to 45, has no part in what follows.)\<close>
  "runAnalysis E sink =
     (let j0 = \<lparr>spawned = False, stdout = [], stderr = [], progressMessages = [],
                processStarted = False, reads = 0, settled = None, killed = False,
                watchdog = False, uncaught = []\<rparr>
      in if files E (pythonScript E) = None
         then (settle (Inl (PlainError (''Python script not found at: '' @ pythonScript E))) j0, [])
         else if sink
         then (j0\<lparr>spawned := True, watchdog := True, reads := 1\<rparr>,
               [\<lparr>step = ''system'', message = ''Python process started, initializing...'',
                 timestamp = now E 0\<rparr>])
         else (j0\<lparr>spawned := True, watchdog := True\<rparr>, []))"

definition classify :: "nat \<Rightarrow> string \<Rightarrow> progress" where
  \<comment> \<open>the \<^verbatim>\<open>progressData\<close> of a stdout line\<close>
  "classify t line =
     \<lparr>step = (case stepMatch line of None \<Rightarrow> ''system'' | Some label \<Rightarrow> label),
      message = trim line, timestamp = t\<rparr>"

fun emit_lines :: "env \<Rightarrow> bool \<Rightarrow> string list \<Rightarrow> job \<times> progress list \<Rightarrow> job \<times> progress list" where
  \<comment> \<open>the loop \<^verbatim>\<open>for (const line of lines)\<close>: both branches push, the first also calls
      the sink\<close>
  "emit_lines E sink [] (j, calls) = (j, calls)"
| "emit_lines E sink (line # lines) (j, calls) =
     (let progressData = classify (now E (reads j)) line;
          j' = j\<lparr>progressMessages := progressMessages j @ [progressData], reads := Suc (reads j)\<rparr>
      in emit_lines E sink lines (j', if sink then calls @ [progressData] else calls))"

definition on_stdout :: "env \<Rightarrow> bool \<Rightarrow> string \<Rightarrow> job \<Rightarrow> job \<times> progress list" where
  \<comment> \<open>lines 79 to 119\<close>
  "on_stdout E sink chunk j =
     (let first = (\<not> processStarted j \<and> sink);
          calls = (if first
                   then [\<lparr>step = ''system'',
                          message = ''Python process is running and producing output...'',
                          timestamp = now E (reads j)\<rparr>]
                   else []);
          j1 = j\<lparr>processStarted := True, reads := (if first then Suc (reads j) else reads j),
                 stdout := stdout j @ chunk\<rparr>
      in emit_lines E sink (nonblank_lines chunk) (j1, calls))"

definition on_stderr :: "env \<Rightarrow> bool \<Rightarrow> string \<Rightarrow> job \<Rightarrow> job \<times> progress list" where
  \<comment> \<open>lines 121 to 138\<close>
  "on_stderr E sink chunk j =
     (let j1 = j\<lparr>stderr := stderr j @ chunk\<rparr>;
          trimmedChunk = trim chunk
      in if trimmedChunk \<noteq> [] then
           (if sink
            then (let progressData = \<lparr>step = ''error'', message = ''Error: '' @ trimmedChunk,
                                      timestamp = now E (reads j1)\<rparr>
                  in (j1\<lparr>progressMessages := progressMessages j1 @ [progressData],
                         reads := Suc (reads j1)\<rparr>, [progressData]))
            else (j1, []))
         else (j1, []))"

definition on_close :: "env \<Rightarrow> int option \<Rightarrow> job \<Rightarrow> job" where
  \<comment> \<open>the two \<^verbatim>\<open>close\<close> listeners, lines 142 to 255 and 267 to 269\<close>
  "on_close E code j =
     (if code \<noteq> Some 0
      then (settle (Inl (exit_failure code (stdout j) (stderr j))) j)\<lparr>watchdog := False\<rparr>
      else (case resolve_ok E (stdout j) (progressMessages j) of
              Inr result \<Rightarrow> (settle (Inr result) j)\<lparr>watchdog := False\<rparr>
            | Inl e \<Rightarrow> j\<lparr>uncaught := uncaught j @ [e]\<rparr>))"

definition on_error :: "string \<Rightarrow> job \<Rightarrow> job" where
  \<comment> \<open>lines 257 to 260\<close>
  "on_error msg j =
     settle (Inl (PlainError (''Failed to start Python process: '' @ msg @
                              ''. Make sure Python is installed and accessible.''))) j"

definition on_timeout :: "job \<Rightarrow> job" where
  \<comment> \<open>lines 263 to 266; the callback runs only while the timer is armed\<close>
  "on_timeout j =
     (if watchdog j
      then settle (Inl (PlainError ''Analysis timeout: Process took longer than 60 minutes''))
             (j\<lparr>killed := True, watchdog := False\<rparr>)
      else j)"

datatype job_event =
    StdoutData string
  | StderrData string
  | ProcClose "int option"
  | ProcError string
  | Timeout

fun job_step :: "env \<Rightarrow> bool \<Rightarrow> job_event \<Rightarrow> job \<Rightarrow> job \<times> progress list" where
  "job_step E sink (StdoutData chunk) j = (if spawned j then on_stdout E sink chunk j else (j, []))"
| "job_step E sink (StderrData chunk) j = (if spawned j then on_stderr E sink chunk j else (j, []))"
| "job_step E sink (ProcClose code) j = (if spawned j then (on_close E code j, []) else (j, []))"
| "job_step E sink (ProcError msg) j = (if spawned j then (on_error msg j, []) else (j, []))"
| "job_step E sink Timeout j = (if spawned j then (on_timeout j, []) else (j, []))"

fun feed :: "env \<Rightarrow> bool \<Rightarrow> string list \<Rightarrow> job \<times> progress list \<Rightarrow> job \<times> progress list" where
  \<comment> \<open>the \<^verbatim>\<open>data\<close> events of stdout, one per chunk, with the sink calls collected\<close>
  "feed E sink [] (j, calls) = (j, calls)"
| "feed E sink (chunk # chunks) (j, calls) =
     (case on_stdout E sink chunk j of (j', cs) \<Rightarrow> feed E sink chunks (j', calls @ cs))"

definition label :: "progress \<Rightarrow> string \<times> string" where
  "label p = (step p, message p)"

section \<open>The Streaming Session: \<^verbatim>\<open>POST /analyze/stream\<close>\<close>

text \<open>
  What is written with \<^verbatim>\<open>res.write\<close>: the line naming an event, the line carrying its data
  (the value given to \<^verbatim>\<open>JSON.stringify\<close>), and the keep-alive comment with its time stamp.
\<close>

datatype sse =
    EventLine string
  | DataLine jsval
  | KeepAlive nat

text \<open>
  The variables of the route's closure (\<open>connectionAlive\<close>, \<open>responseEnded\<close>, and whether
  \<open>keepAliveInterval\<close> is still set), the three flags of the response the handlers read,
  and two logs: \<open>calls\<close>, every call of \<^verbatim>\<open>res.write\<close> in order, and \<open>wire\<close>, the writes
  that reached the transport. \<^verbatim>\<open>res.write\<close> of a string does not throw: on a response
  that has ended or is destroyed the chunk is dropped (and the failure is reported through
  the \<^verbatim>\<open>error\<close> event), so the \<^verbatim>\<open>catch\<close> clauses around it have no path to them.
\<close>

record session =
  connectionAlive :: bool
  responseEnded :: bool
  keepAliveInterval :: bool
  destroyed :: bool
  closed :: bool
  writableEnded :: bool
  calls :: "sse list"
  wire :: "sse list"

definition res_write :: "sse \<Rightarrow> session \<Rightarrow> session" where
  "res_write x s =
     s\<lparr>calls := calls s @ [x],
       wire := (if writableEnded s \<or> destroyed s then wire s else wire s @ [x])\<rparr>"

definition res_end :: "session \<Rightarrow> session" where
  "res_end s = s\<lparr>writableEnded := True\<rparr>"

definition mark_closed :: "session \<Rightarrow> session" where
  \<comment> \<open>the three assignments the handlers share\<close>
  "mark_closed s = s\<lparr>connectionAlive := False, responseEnded := True, keepAliveInterval := False\<rparr>"

definition keepAlive :: "nat \<Rightarrow> session \<Rightarrow> session" where
  \<comment> \<open>the callback of \<^verbatim>\<open>setInterval\<close>, lines 145 to 174, run only while the interval is
      set; the argument is its \<^verbatim>\<open>Date.now()\<close>\<close>
  "keepAlive t s =
     (if \<not> keepAliveInterval s then s
      else if \<not> connectionAlive s \<or> responseEnded s then s\<lparr>keepAliveInterval := False\<rparr>
      else if destroyed s \<or> closed s \<or> writableEnded s then mark_closed s
      else res_write (KeepAlive t) s)"

definition on_req_close :: "session \<Rightarrow> session" where
  \<comment> \<open>lines 182 to 193\<close>
  "on_req_close s =
     (if connectionAlive s \<and> (writableEnded s \<or> destroyed s \<or> closed s) then mark_closed s
      else s)"

definition on_res_close :: "session \<Rightarrow> session" where
  \<comment> \<open>lines 195 to 202\<close>
  "on_res_close s = (if connectionAlive s then mark_closed s else s)"

definition sendProgress :: "progress \<Rightarrow> session \<Rightarrow> session" where
  \<comment> \<open>lines 220 to 255\<close>
  "sendProgress progressData s =
     (if responseEnded s then s
      else if destroyed s \<or> closed s \<or> writableEnded s
      then (if connectionAlive s then mark_closed s else s)
      else (let s1 = (if \<not> connectionAlive s \<and> \<not> responseEnded s
                      then s\<lparr>connectionAlive := True\<rparr> else s)
            in res_write (DataLine (progress_js progressData))
                 (res_write (EventLine ''progress'') s1)))"

definition on_fulfilled :: "jsval \<Rightarrow> session \<Rightarrow> session" where
  \<comment> \<open>the \<^verbatim>\<open>.then\<close> callback, lines 264 to 274\<close>
  "on_fulfilled result s =
     (let timing = (case get_prop result ''timing'' of
                      None \<Rightarrow> JObj []
                    | Some v \<Rightarrow> if truthy (Some v) then v else JObj [])
      in res_end
           (res_write (DataLine (JObj [(''status'', JStr ''success''), (''data'', result),
                                       (''timing'', timing)]))
              (res_write (EventLine ''complete'') (s\<lparr>keepAliveInterval := False\<rparr>))))"

definition on_rejected :: "job_error \<Rightarrow> session \<Rightarrow> session" where
  \<comment> \<open>the \<^verbatim>\<open>.catch\<close> callback, lines 275 to 285\<close>
  "on_rejected e s =
     (let msg = (if error_message e = [] then ''Analysis failed'' else error_message e)
      in res_end
           (res_write (DataLine (JObj [(''status'', JStr ''error''), (''message'', JStr msg)]))
              (res_write (EventLine ''error'') (s\<lparr>keepAliveInterval := False\<rparr>))))"

definition reaction :: "job_error + jsval \<Rightarrow> session \<Rightarrow> session" where
  \<comment> \<open>\<^verbatim>\<open>runAnalysis(...).then(...).catch(...)\<close>: the \<^verbatim>\<open>.then\<close> callback does not throw, so
      the \<^verbatim>\<open>.catch\<close> callback runs for a rejected promise only\<close>
  "reaction v s = (case v of Inl e \<Rightarrow> on_rejected e s | Inr result \<Rightarrow> on_fulfilled result s)"

text \<open>
  One streaming request: the job and its session. An event is a callback the event loop
  runs to completion: an event of the subprocess (its sink calls go to \<open>sendProgress\<close>, and
  when it settles the promise the reaction runs before any other event), a tick of the
  keep-alive interval, the \<^verbatim>\<open>close\<close> of the request, the \<^verbatim>\<open>close\<close>, \<^verbatim>\<open>finish\<close> and
  \<^verbatim>\<open>error\<close> of the response, and the loss of the transport, which the runtime records
  in \<^verbatim>\<open>res.destroyed\<close>.
\<close>

record system =
  job_of :: job
  session_of :: session

datatype event =
    Process job_event
  | Tick nat
  | ReqClose
  | ResClose
  | ResFinish
  | ResError
  | TransportDown

definition deliver_job :: "job \<Rightarrow> job \<times> progress list \<Rightarrow> session \<Rightarrow> system" where
  \<comment> \<open>the session after the sink calls of one callback of the job, and after the reaction
      when that callback settled the promise\<close>
  "deliver_job before r s =
     (let s1 = foldl (\<lambda>s p. sendProgress p s) s (snd r)
      in \<lparr>job_of = fst r,
          session_of = (case (settled before, settled (fst r)) of
                          (None, Some v) \<Rightarrow> reaction v s1
                        | _ \<Rightarrow> s1)\<rparr>)"

fun step_event :: "env \<Rightarrow> event \<Rightarrow> system \<Rightarrow> system" where
  "step_event E (Process e) sys =
     deliver_job (job_of sys) (job_step E True e (job_of sys)) (session_of sys)"
| "step_event E (Tick t) sys = sys\<lparr>session_of := keepAlive t (session_of sys)\<rparr>"
| "step_event E ReqClose sys = sys\<lparr>session_of := on_req_close (session_of sys)\<rparr>"
| "step_event E ResClose sys =
     sys\<lparr>session_of := on_res_close ((session_of sys)\<lparr>closed := True\<rparr>)\<rparr>"
| "step_event E ResFinish sys = sys\<lparr>session_of := mark_closed (session_of sys)\<rparr>"
| "step_event E ResError sys = sys\<lparr>session_of := mark_closed (session_of sys)\<rparr>"
| "step_event E TransportDown sys = sys\<lparr>session_of := (session_of sys)\<lparr>destroyed := True\<rparr>\<rparr>"

definition open_stream :: "string \<Rightarrow> nat \<Rightarrow> session" where
  \<comment> \<open>lines 123 to 217, after validation: the first progress event, the interval and the
      listeners; the arguments are \<^verbatim>\<open>ticker.toUpperCase()\<close> and \<^verbatim>\<open>Date.now()\<close>\<close>
  "open_stream TICKER t0 =
     res_write (DataLine (progress_js \<lparr>step = ''system'',
                            message = ''Starting analysis for '' @ TICKER @ ''...'',
                            timestamp = t0\<rparr>))
       (res_write (EventLine ''progress'')
          \<lparr>connectionAlive = True, responseEnded = False, keepAliveInterval = True,
           destroyed = False, closed = False, writableEnded = False, calls = [], wire = []\<rparr>)"

definition setup_failure :: "string \<Rightarrow> session" where
  \<comment> \<open>The \<^verbatim>\<open>catch\<close> clause of the route handler, lines 289 to 303. The set-up can throw
      only where it reads the body (the body is missing, or a field of it is no string),
      which is before the first write, the interval and the listeners; the argument is
      the message of that exception. No job is started and no callback is left.\<close>
  "setup_failure msg =
     res_end
       (res_write (DataLine (JObj [(''status'', JStr ''error''),
                                   (''message'', JStr (if msg = [] then ''Failed to start analysis''
                                                       else msg))]))
          (res_write (EventLine ''error'')
             \<lparr>connectionAlive = False, responseEnded = False, keepAliveInterval = False,
              destroyed = False, closed = False, writableEnded = False, calls = [], wire = []\<rparr>))"

definition start_stream :: "env \<Rightarrow> string \<Rightarrow> nat \<Rightarrow> system" where
  \<comment> \<open>the route handler, to its end\<close>
  "start_stream E TICKER t0 =
     deliver_job
       \<lparr>spawned = False, stdout = [], stderr = [], progressMessages = [],
        processStarted = False, reads = 0, settled = None, killed = False,
        watchdog = False, uncaught = []\<rparr>
       (runAnalysis E True) (open_stream TICKER t0)"

definition run :: "env \<Rightarrow> event list \<Rightarrow> system \<Rightarrow> system" where
  "run E evs sys = foldl (\<lambda>s e. step_event E e s) sys evs"

definition is_terminal :: "sse \<Rightarrow> bool" where
  "is_terminal x = (x = EventLine ''complete'' \<or> x = EventLine ''error'')"

fun terminated_once :: "sse list \<Rightarrow> bool" where
  \<comment> \<open>no terminal event, or one: its event line, then its data line, then nothing\<close>
  "terminated_once [] = True"
| "terminated_once (x # xs) =
     (if is_terminal x then (case xs of [DataLine d] \<Rightarrow> True | _ \<Rightarrow> False)
      else terminated_once xs)"

fun process_events :: "event list \<Rightarrow> job_event list" where
  "process_events [] = []"
| "process_events (Process e # evs) = e # process_events evs"
| "process_events (ev # evs) = process_events evs"

definition job_run :: "env \<Rightarrow> job_event list \<Rightarrow> job \<Rightarrow> job" where
  \<comment> \<open>the job under the events of its subprocess alone\<close>
  "job_run E es j = foldl (\<lambda>j e. fst (job_step E True e j)) j es"

section \<open>Notions the statements use\<close>

definition structured_text :: "string \<Rightarrow> string option" where
  \<comment> \<open>the text the \<^verbatim>\<open>try\<close> block hands to \<^verbatim>\<open>JSON.parse\<close>, if it calls it: the sentinel
      text when both markers are found, else the brace span\<close>
  "structured_text out = (case jsonStr out of Some t \<Rightarrow> Some t | None \<Rightarrow> jsonMatch out)"

fun is_object :: "jsval \<Rightarrow> bool" where
  \<comment> \<open>a value that takes properties: an object or an array\<close>
  "is_object (JObj kvs) = True"
| "is_object (JArr xs kvs) = True"
| "is_object v = False"

definition running_label :: "string \<times> string" where
  \<comment> \<open>step and message of the event the sink gets at the first output, lines 84 to 88\<close>
  "running_label = (''system'', ''Python process is running and producing output...'')"

definition generic_message :: "int option \<Rightarrow> string" where
  "generic_message code = ''Python process exited with code '' @ show_code code"

definition claimed_message :: "int option \<Rightarrow> string \<Rightarrow> string \<Rightarrow> string" where
  \<comment> \<open>The derivation of the message in the words of the specification, section 4.3: the
      last non-empty stderr line when it holds no traceback marker, else all non-empty
      stderr lines joined, else the last stdout line that mentions an error, else the
      generic message.\<close>
  "claimed_message code out err =
     (let ls = nonblank_lines err; ms = error_lines out
      in if ls \<noteq> [] \<and> \<not> str_includes (last ls) ''Traceback'' then last ls
         else if ls \<noteq> [] then join ''; '' ls
         else if ms \<noteq> [] then last ms
         else generic_message code)"

text \<open>
  An environment for the examples. \<open>parse_table\<close> stands for \<^verbatim>\<open>JSON.parse\<close>: on the
  texts it lists it returns what \<^verbatim>\<open>JSON.parse\<close> returns, on any other text it fails (the
  examples give it no other text that is JSON). The message of the \<^verbatim>\<open>TypeError\<close> is the
  one of V8 for \<^verbatim>\<open>null\<close>. The service is installed in \<^verbatim>\<open>/srv/app\<close>, where
  \<^verbatim>\<open>main.py\<close> is, and the analysis has written its memo to \<^verbatim>\<open>outputs/AAPL_memo.md\<close>
  under its working directory.
\<close>

definition parse_table :: "(string \<times> jsval) list \<Rightarrow> string \<Rightarrow> string + jsval" where
  "parse_table tbl t =
     (case map_of tbl t of
        Some v \<Rightarrow> Inr v
      | None \<Rightarrow> Inl ''Unexpected token in JSON'')"

definition example_payload :: string where
  "example_payload =
     [CHR ''{'', CHR 0x22] @ ''recommendation'' @ [CHR 0x22, CHR '':'', CHR 0x22] @ ''BUY'' @
     [CHR 0x22, CHR '','', CHR 0x22] @ ''confidence_score'' @ [CHR 0x22, CHR '':''] @ ''0.8'' @
     [CHR '','', CHR 0x22] @ ''scenarios'' @ [CHR 0x22, CHR '':'', CHR ''{'', CHR ''}'', CHR ''}'']"

definition flagged_payload :: string where
  \<comment> \<open>a payload that carries a field \<^verbatim>\<open>parseError\<close> of its own\<close>
  "flagged_payload =
     [CHR ''{'', CHR 0x22] @ ''parseError'' @ [CHR 0x22, CHR '':'', CHR 0x22] @ ''stale'' @
     [CHR 0x22, CHR ''}'']"

definition example_env :: env where
  "example_env =
     \<lparr>json_parse = parse_table
        [(example_payload,
          JObj [(''recommendation'', JStr ''BUY''),
                (''confidence_score'', to_double False (4 / 5)),
                (''scenarios'', JObj [])]),
         (flagged_payload, JObj [(''parseError'', JStr ''stale'')]),
         (''null'', JNull)],
      type_error = (\<lambda>v k. ''Cannot set properties of null (setting '' @ [CHR 0x27] @ k @ [CHR 0x27] @ '')''),
      files = (\<lambda>p. if p = ''/srv/app/main.py'' then Some (Readable ''# main'')
                    else if p = ''/srv/app/outputs/AAPL_memo.md'' then Some (Readable ''# AAPL memo'')
                    else None),
      dirname = ''/srv/app/dist/services'',
      now = (\<lambda>k. k)\<rparr>"

text \<open>
  The invariant of a streaming request. A log is quiet while it holds no terminal event.
  Once the log of calls holds one, the response has been ended, the interval is cleared
  and the promise is settled; the log of the transport is quiet or ends in its one
  terminal event.
\<close>

definition quiet :: "sse list \<Rightarrow> bool" where
  "quiet xs = (\<forall>x \<in> set xs. \<not> is_terminal x)"

definition session_inv :: "bool \<Rightarrow> session \<Rightarrow> bool" where
  "session_inv done s =
     ((quiet (calls s) \<or>
       (terminated_once (calls s) \<and> writableEnded s \<and> \<not> keepAliveInterval s \<and> done)) \<and>
      (quiet (wire s) \<or> (terminated_once (wire s) \<and> writableEnded s)))"

definition system_inv :: "system \<Rightarrow> bool" where
  "system_inv sys = session_inv (settled (job_of sys) \<noteq> None) (session_of sys)"

section \<open>The message of a failed exit\<close>

lemma nonblank_line_nonempty: "l \<in> set (nonblank_lines s) \<Longrightarrow> l \<noteq> []"
  by (auto simp: nonblank_lines_def trim_def)

lemma last_nonblank_nonempty: "nonblank_lines s \<noteq> [] \<Longrightarrow> last (nonblank_lines s) \<noteq> []"
  using nonblank_line_nonempty [of "last (nonblank_lines s)" s] by simp

lemma nonblank_lines_Nil: "nonblank_lines [] = []"
  by (simp add: nonblank_lines_def trim_def)

lemma error_lines_Nil: "error_lines [] = []"
  by (simp add: error_lines_def trim_def)

lemma exit_error_message_cases:
  "exit_error_message code out err =
     (let ls = nonblank_lines err; ms = error_lines out
      in if ls \<noteq> [] \<and> \<not> str_includes (last ls) ''Traceback'' then last ls
         else if ls \<noteq> [] then join ''; '' ls
         else if err = [] \<and> ms \<noteq> [] then last ms
         else generic_message code)"
proof (cases "err = []")
  case True
  then show ?thesis
    by (cases "out = []")
       (simp_all add: exit_error_message_def generic_message_def nonblank_lines_Nil
          error_lines_Nil Let_def)
next
  case False
  then show ?thesis
    using last_nonblank_nonempty [of err]
    by (simp add: exit_error_message_def generic_message_def last_elem_def Let_def)
qed

text \<open>
  Claim C4, as the code has it. When the subprocess closes with a code other than 0 (or
  with none), the pending promise is rejected with an error that carries the code, both
  buffers and this message: the last non-blank stderr line when it does not contain
  \<^verbatim>\<open>Traceback\<close>; else all non-blank stderr lines joined by \<^verbatim>\<open>; \<close>; else, only when
  stderr is the empty string, the last stdout line that contains \<^verbatim>\<open>error\<close>,
  \<^verbatim>\<open>exception\<close> or \<^verbatim>\<open>failed\<close> in any case; else \<^verbatim>\<open>Python process exited with code N\<close>.
  A stderr of blank lines only gets the generic message: stdout is not read then.
\<close>

theorem exit_failure_message:
  assumes "code \<noteq> Some 0" and "spawned j" and "settled j = None"
  shows "settled (fst (job_step E sink (ProcClose code) j)) =
           Some (Inl (ExitError
             (let ls = nonblank_lines (stderr j); ms = error_lines (stdout j)
              in if ls \<noteq> [] \<and> \<not> str_includes (last ls) ''Traceback'' then last ls
                 else if ls \<noteq> [] then join ''; '' ls
                 else if stderr j = [] \<and> ms \<noteq> [] then last ms
                 else generic_message code)
             code (stdout j) (stderr j)))"
  using assms
  by (simp add: on_close_def settle_def exit_failure_def exit_error_message_cases)

text \<open>
  The example of the specification: exit code 1 and the stderr
  \<^verbatim>\<open>Traceback...\nValueError: bad ticker\<close> give the message \<^verbatim>\<open>ValueError: bad ticker\<close>.
\<close>

theorem exit_failure_message_witness:
  "settled (fst (job_step example_env False (ProcClose (Some 1))
      (fst (job_step example_env False
              (StderrData (''Traceback...'' @ [CHR 0x0A] @ ''ValueError: bad ticker''))
              (fst (runAnalysis example_env False)))))) =
   Some (Inl (ExitError ''ValueError: bad ticker'' (Some 1) []
             (''Traceback...'' @ [CHR 0x0A] @ ''ValueError: bad ticker'')))"
proof -
  let ?err = "''Traceback...'' @ [CHR 0x0A] @ ''ValueError: bad ticker''"
  let ?j = "fst (job_step example_env False (StderrData ?err) (fst (runAnalysis example_env False)))"
  have 1: "spawned ?j" by code_simp
  have 2: "settled ?j = None" by code_simp
  have 3: "stdout ?j = []" by code_simp
  have 4: "stderr ?j = ?err" by code_simp
  have 5: "(let ls = nonblank_lines ?err; ms = error_lines []
            in if ls \<noteq> [] \<and> \<not> str_includes (last ls) ''Traceback'' then last ls
               else if ls \<noteq> [] then join ''; '' ls
               else if ?err = [] \<and> ms \<noteq> [] then last ms
               else generic_message (Some 1)) = ''ValueError: bad ticker''"
    by code_simp
  show ?thesis
    using exit_failure_message [of "Some 1" ?j example_env False, OF _ 1 2]
    unfolding 3 4 5 by simp
qed

text \<open>
  Where the claim as written fails: exit code 1, a stderr that is one newline, and the
  stdout \<^verbatim>\<open>Error: rate limit\<close>. The claim's chain reaches the stdout line; the code,
  having found stderr non-empty, never looks at stdout.
\<close>

theorem blank_stderr_hides_stdout_counterexample:
  "exit_error_message (Some 1) ''Error: rate limit'' [CHR 0x0A] =
     ''Python process exited with code 1'' \<and>
   claimed_message (Some 1) ''Error: rate limit'' [CHR 0x0A] = ''Error: rate limit''"
  by code_simp

section \<open>The Output Demultiplexer\<close>

lemma split_nl_nonempty: "split_nl s \<noteq> []"
  by (induction s) (auto split: list.splits)

lemma split_nl_append_newline: "split_nl (a @ CHR 0x0A # b) = split_nl a @ split_nl b"
proof (induction a)
  case Nil
  show ?case by simp
next
  case (Cons c cs)
  obtain l ls where "split_nl cs = l # ls"
    using split_nl_nonempty [of cs] by (cases "split_nl cs") auto
  with Cons show ?case by simp
qed

lemma nonblank_lines_at_line_end:
  assumes "c = [] \<or> last c = CHR 0x0A"
  shows "nonblank_lines (c @ d) = nonblank_lines c @ nonblank_lines d"
proof (cases "c = []")
  case True
  then show ?thesis by (simp add: nonblank_lines_Nil)
next
  case False
  with assms obtain a where c: "c = a @ [CHR 0x0A]"
    by (metis append_butlast_last_id)
  have "nonblank_lines (a @ CHR 0x0A # d) = nonblank_lines a @ nonblank_lines d"
    by (simp add: nonblank_lines_def split_nl_append_newline)
  moreover have "nonblank_lines (a @ [CHR 0x0A]) = nonblank_lines a"
    using split_nl_append_newline [of a "[]"] by (simp add: nonblank_lines_def trim_def)
  ultimately show ?thesis by (simp add: c)
qed

lemma label_classify: "label (classify t line) = label (classify 0 line)"
  by (simp add: label_def classify_def)

lemma emit_lines_labels:
  "map label (progressMessages (fst (emit_lines E sink ls (j, cs)))) =
     map label (progressMessages j) @ map (\<lambda>l. label (classify 0 l)) ls"
proof (induction ls arbitrary: j cs)
  case Nil
  show ?case by simp
next
  case (Cons l ls)
  let ?p = "classify (now E (reads j)) l"
  let ?j = "j\<lparr>progressMessages := progressMessages j @ [?p], reads := Suc (reads j)\<rparr>"
  have "emit_lines E sink (l # ls) (j, cs) =
          emit_lines E sink ls (?j, if sink then cs @ [?p] else cs)"
    by (simp add: Let_def)
  then show ?case
    using Cons.IH [of ?j "if sink then cs @ [?p] else cs"] label_classify [of "now E (reads j)" l]
    by simp
qed

lemma emit_lines_stdout: "stdout (fst (emit_lines E sink ls (j, cs))) = stdout j"
  by (induction ls arbitrary: j cs) (simp_all add: Let_def)

lemma on_stdout_labels:
  "map label (progressMessages (fst (on_stdout E sink chunk j))) =
     map label (progressMessages j) @ map (\<lambda>l. label (classify 0 l)) (nonblank_lines chunk)"
  by (simp add: on_stdout_def Let_def emit_lines_labels)

lemma on_stdout_stdout: "stdout (fst (on_stdout E sink chunk j)) = stdout j @ chunk"
  by (simp add: on_stdout_def Let_def emit_lines_stdout)

lemma feed_labels:
  "map label (progressMessages (fst (feed E sink chunks (j, cs)))) =
     map label (progressMessages j) @
     concat (map (\<lambda>c. map (\<lambda>l. label (classify 0 l)) (nonblank_lines c)) chunks)"
proof (induction chunks arbitrary: j cs)
  case Nil
  show ?case by simp
next
  case (Cons c chunks)
  obtain j' cs' where r: "on_stdout E sink c j = (j', cs')" by (cases "on_stdout E sink c j")
  have "map label (progressMessages j') =
          map label (progressMessages j) @ map (\<lambda>l. label (classify 0 l)) (nonblank_lines c)"
    using on_stdout_labels [of E sink c j] by (simp add: r)
  then show ?case by (simp add: r Cons.IH)
qed

lemma feed_stdout: "stdout (fst (feed E sink chunks (j, cs))) = stdout j @ concat chunks"
proof (induction chunks arbitrary: j cs)
  case Nil
  show ?case by simp
next
  case (Cons c chunks)
  obtain j' cs' where r: "on_stdout E sink c j = (j', cs')" by (cases "on_stdout E sink c j")
  have "stdout j' = stdout j @ c"
    using on_stdout_stdout [of E sink c j] by (simp add: r)
  then show ?case by (simp add: r Cons.IH)
qed

lemma emit_lines_calls:
  "map label (snd (emit_lines E sink ls (j, cs))) =
     map label cs @ (if sink then map (\<lambda>l. label (classify 0 l)) ls else [])"
proof (induction ls arbitrary: j cs)
  case Nil
  show ?case by simp
next
  case (Cons l ls)
  let ?p = "classify (now E (reads j)) l"
  let ?j = "j\<lparr>progressMessages := progressMessages j @ [?p], reads := Suc (reads j)\<rparr>"
  have "emit_lines E sink (l # ls) (j, cs) =
          emit_lines E sink ls (?j, if sink then cs @ [?p] else cs)"
    by (simp add: Let_def)
  then show ?case
    using Cons.IH [of ?j "if sink then cs @ [?p] else cs"] label_classify [of "now E (reads j)" l]
    by simp
qed

lemma emit_lines_started:
  "processStarted (fst (emit_lines E sink ls (j, cs))) = processStarted j"
  by (induction ls arbitrary: j cs) (simp_all add: Let_def)

lemma on_stdout_calls:
  "map label (snd (on_stdout E sink chunk j)) =
     (if sink \<and> \<not> processStarted j then [running_label] else []) @
     (if sink then map (\<lambda>l. label (classify 0 l)) (nonblank_lines chunk) else [])"
  by (simp add: on_stdout_def Let_def emit_lines_calls running_label_def label_def)

lemma on_stdout_started: "processStarted (fst (on_stdout E sink chunk j))"
  by (simp add: on_stdout_def Let_def emit_lines_started)

lemma feed_calls:
  "map label (snd (feed E sink chunks (j, cs))) =
     map label cs @
     (if sink \<and> \<not> processStarted j \<and> chunks \<noteq> [] then [running_label] else []) @
     (if sink then concat (map (\<lambda>c. map (\<lambda>l. label (classify 0 l)) (nonblank_lines c)) chunks)
      else [])"
proof (induction chunks arbitrary: j cs)
  case Nil
  show ?case by simp
next
  case (Cons c chunks)
  obtain j' cs' where r: "on_stdout E sink c j = (j', cs')" by (cases "on_stdout E sink c j")
  have 1: "processStarted j'" using on_stdout_started [of E sink c j] by (simp add: r)
  have 2: "map label cs' =
     (if sink \<and> \<not> processStarted j then [running_label] else []) @
     (if sink then map (\<lambda>l. label (classify 0 l)) (nonblank_lines c) else [])"
    using on_stdout_calls [of E sink c j] by (simp add: r)
  show ?case using Cons.IH [of j' "cs @ cs'"] 1 2 by (simp add: r)
qed

lemma close_pushes_nothing:
  "progressMessages (fst (job_step E sink (ProcClose code) j)) = progressMessages j"
  by (simp add: on_close_def settle_def split: sum.splits)

lemma nonblank_lines_concat:
  assumes "\<forall>c \<in> set (butlast chunks). c = [] \<or> last c = CHR 0x0A"
  shows "nonblank_lines (concat chunks) = concat (map nonblank_lines chunks)"
  using assms
proof (induction chunks)
  case Nil
  show ?case by (simp add: nonblank_lines_Nil)
next
  case (Cons c chunks)
  show ?case
  proof (cases "chunks = []")
    case True
    then show ?thesis by simp
  next
    case False
    with Cons.prems have c: "c = [] \<or> last c = CHR 0x0A"
      and rest: "\<forall>c \<in> set (butlast chunks). c = [] \<or> last c = CHR 0x0A"
      by auto
    show ?thesis
      using nonblank_lines_at_line_end [OF c, of "concat chunks"] Cons.IH [OF rest] by simp
  qed
qed

text \<open>
  Claim C6, as the code has it. The handler of stdout splits every chunk on its own:
  each non-blank piece between newlines of a chunk is classified, pushed and given to the
  sink at once, nothing is held over to the next chunk and nothing is flushed when the
  process exits: the \<^verbatim>\<open>close\<close> handler, whatever the exit code, pushes no event and
  calls the sink with none. So the sequence of events (their step and message), in the
  transcript and at the sink, is the concatenation of the sequences of the chunks, while
  the buffer \<open>stdout\<close> is the concatenation of the chunks, each as \<^verbatim>\<open>data.toString()\<close>
  decoded it. The sequence is the one of the whole stream when every chunk boundary falls
  on a line end, that is when every chunk but the last is empty or ends in a newline.
\<close>

theorem chunks_split_on_their_own:
  "map label (progressMessages (fst (feed E sink chunks (j, cs)))) =
     map label (progressMessages j) @
     concat (map (\<lambda>c. map (\<lambda>l. label (classify 0 l)) (nonblank_lines c)) chunks) \<and>
   map label (snd (feed E sink chunks (j, cs))) =
     map label cs @
     (if sink \<and> \<not> processStarted j \<and> chunks \<noteq> [] then [running_label] else []) @
     (if sink then concat (map (\<lambda>c. map (\<lambda>l. label (classify 0 l)) (nonblank_lines c)) chunks)
      else []) \<and>
   stdout (fst (feed E sink chunks (j, cs))) = stdout j @ concat chunks \<and>
   progressMessages (fst (job_step E sink (ProcClose code) j)) = progressMessages j \<and>
   snd (job_step E sink (ProcClose code) j) = [] \<and>
   progressMessages (fst (job_step E sink (ProcClose code) (fst (feed E sink chunks (j, cs))))) =
     progressMessages (fst (feed E sink chunks (j, cs))) \<and>
   ((\<forall>c \<in> set (butlast chunks). c = [] \<or> last c = CHR 0x0A) \<longrightarrow>
      map label (progressMessages (fst (feed E sink chunks (j, cs)))) =
      map label (progressMessages (fst (feed E sink [concat chunks] (j, cs)))) \<and>
      (chunks \<noteq> [] \<longrightarrow>
         map label (snd (feed E sink chunks (j, cs))) =
         map label (snd (feed E sink [concat chunks] (j, cs)))))"
proof (intro conjI impI)
  show "map label (progressMessages (fst (feed E sink chunks (j, cs)))) =
     map label (progressMessages j) @
     concat (map (\<lambda>c. map (\<lambda>l. label (classify 0 l)) (nonblank_lines c)) chunks)"
    by (rule feed_labels)
  show "map label (snd (feed E sink chunks (j, cs))) =
     map label cs @
     (if sink \<and> \<not> processStarted j \<and> chunks \<noteq> [] then [running_label] else []) @
     (if sink then concat (map (\<lambda>c. map (\<lambda>l. label (classify 0 l)) (nonblank_lines c)) chunks)
      else [])"
    by (rule feed_calls)
  show "stdout (fst (feed E sink chunks (j, cs))) = stdout j @ concat chunks"
    by (rule feed_stdout)
  show "progressMessages (fst (job_step E sink (ProcClose code) j)) = progressMessages j"
    by (rule close_pushes_nothing)
  show "snd (job_step E sink (ProcClose code) j) = []"
    by simp
  show "progressMessages (fst (job_step E sink (ProcClose code) (fst (feed E sink chunks (j, cs))))) =
     progressMessages (fst (feed E sink chunks (j, cs)))"
    by (rule close_pushes_nothing)
next
  assume "\<forall>c \<in> set (butlast chunks). c = [] \<or> last c = CHR 0x0A"
  then have "nonblank_lines (concat chunks) = concat (map nonblank_lines chunks)"
    by (rule nonblank_lines_concat)
  then have "map (\<lambda>l. label (classify 0 l)) (nonblank_lines (concat chunks)) =
      concat (map (\<lambda>c. map (\<lambda>l. label (classify 0 l)) (nonblank_lines c)) chunks)"
    by (simp add: map_concat comp_def)
  then show "map label (progressMessages (fst (feed E sink chunks (j, cs)))) =
      map label (progressMessages (fst (feed E sink [concat chunks] (j, cs))))"
    using feed_labels [of E sink chunks j cs] feed_labels [of E sink "[concat chunks]" j cs]
    by simp
next
  assume "\<forall>c \<in> set (butlast chunks). c = [] \<or> last c = CHR 0x0A" and ne: "chunks \<noteq> []"
  then have "nonblank_lines (concat chunks) = concat (map nonblank_lines chunks)"
    using nonblank_lines_concat by blast
  then have "map (\<lambda>l. label (classify 0 l)) (nonblank_lines (concat chunks)) =
      concat (map (\<lambda>c. map (\<lambda>l. label (classify 0 l)) (nonblank_lines c)) chunks)"
    by (simp add: map_concat comp_def)
  then show "map label (snd (feed E sink chunks (j, cs))) =
         map label (snd (feed E sink [concat chunks] (j, cs)))"
    using ne feed_calls [of E sink chunks j cs] feed_calls [of E sink "[concat chunks]" j cs]
    by simp
qed

text \<open>
  Two chunks that end a line each but the last, and the same stream in one chunk: the
  same three events in the transcript, and the same five calls of the sink.
\<close>

theorem chunks_split_on_their_own_witness:
  "map label (progressMessages (fst (feed example_env True
      [''[Agent] one'' @ [CHR 0x0A], ''two'' @ [CHR 0x0A] @ ''thr''] (runAnalysis example_env True)))) =
   [(''Agent'', ''[Agent] one''), (''system'', ''two''), (''system'', ''thr'')] \<and>
   map label (progressMessages (fst (feed example_env True
      [''[Agent] one'' @ [CHR 0x0A] @ ''two'' @ [CHR 0x0A] @ ''thr''] (runAnalysis example_env True)))) =
   [(''Agent'', ''[Agent] one''), (''system'', ''two''), (''system'', ''thr'')] \<and>
   map label (snd (feed example_env True
      [''[Agent] one'' @ [CHR 0x0A], ''two'' @ [CHR 0x0A] @ ''thr''] (runAnalysis example_env True))) =
   [(''system'', ''Python process started, initializing...''), running_label,
    (''Agent'', ''[Agent] one''), (''system'', ''two''), (''system'', ''thr'')] \<and>
   map label (snd (feed example_env True
      [''[Agent] one'' @ [CHR 0x0A] @ ''two'' @ [CHR 0x0A] @ ''thr''] (runAnalysis example_env True))) =
   [(''system'', ''Python process started, initializing...''), running_label,
    (''Agent'', ''[Agent] one''), (''system'', ''two''), (''system'', ''thr'')]"
proof -
  let ?chunks = "[''[Agent] one'' @ [CHR 0x0A], ''two'' @ [CHR 0x0A] @ ''thr'']"
  obtain j cs where r: "runAnalysis example_env True = (j, cs)"
    by (cases "runAnalysis example_env True")
  have h: "\<forall>c \<in> set (butlast ?chunks). c = [] \<or> last c = CHR 0x0A" by simp
  have n: "?chunks \<noteq> []" by simp
  have e: "map label (progressMessages (fst (feed example_env True ?chunks
             (runAnalysis example_env True)))) =
           [(''Agent'', ''[Agent] one''), (''system'', ''two''), (''system'', ''thr'')]"
    by code_simp
  have c: "map label (snd (feed example_env True ?chunks (runAnalysis example_env True))) =
           [(''system'', ''Python process started, initializing...''), running_label,
            (''Agent'', ''[Agent] one''), (''system'', ''two''), (''system'', ''thr'')]"
    by code_simp
  have "map label (progressMessages (fst (feed example_env True ?chunks (j, cs)))) =
        map label (progressMessages (fst (feed example_env True [concat ?chunks] (j, cs))))"
    and "map label (snd (feed example_env True ?chunks (j, cs))) =
         map label (snd (feed example_env True [concat ?chunks] (j, cs)))"
    using chunks_split_on_their_own [of example_env True ?chunks j cs] h n by blast+
  then show ?thesis using e c by (simp add: r)
qed

text \<open>
  Where the claim as written fails: the line \<^verbatim>\<open>[Agent] hello\<close> arrives as the chunks
  \<^verbatim>\<open>[Agent] hel\<close> and \<^verbatim>\<open>lo\n\<close>. It is emitted twice, as two events, the second under
  the step \<^verbatim>\<open>system\<close>; in one chunk it is one event.
\<close>

theorem split_line_counterexample:
  "map label (progressMessages (fst (feed example_env True
      [''[Agent] hel'', ''lo'' @ [CHR 0x0A]] (runAnalysis example_env True)))) =
     [(''Agent'', ''[Agent] hel''), (''system'', ''lo'')] \<and>
   map label (progressMessages (fst (feed example_env True
      [''[Agent] hello'' @ [CHR 0x0A]] (runAnalysis example_env True)))) =
     [(''Agent'', ''[Agent] hello'')]"
  by code_simp

text \<open>
  Claim C7, where the code departs from it. Without a sink (the route
  \<^verbatim>\<open>POST /analyze\<close> passes none) the handler of stderr appends the chunk to the buffer
  and nothing to \<open>progressMessages\<close>: the \<^verbatim>\<open>push\<close> stands inside \<^verbatim>\<open>if (onProgress)\<close>.
  The handler of stdout pushes in both branches (\<open>stdout_without_sink_recorded\<close>).
  With a sink, one event is made of the whole trimmed chunk, not one per line.
\<close>

theorem stderr_without_sink_not_recorded:
  "progressMessages (fst (on_stderr E False chunk j)) = progressMessages j \<and>
   snd (on_stderr E False chunk j) = [] \<and>
   stderr (fst (on_stderr E False chunk j)) = stderr j @ chunk"
  by (simp add: on_stderr_def Let_def)

lemma stdout_without_sink_recorded:
  "map label (progressMessages (fst (on_stdout E False chunk j))) =
     map label (progressMessages j) @ map (\<lambda>l. label (classify 0 l)) (nonblank_lines chunk)"
  by (rule on_stdout_labels)

lemma stderr_with_sink:
  "trim chunk \<noteq> [] \<Longrightarrow>
   map label (snd (on_stderr E True chunk j)) = [(''error'', ''Error: '' @ trim chunk)] \<and>
   map label (progressMessages (fst (on_stderr E True chunk j))) =
     map label (progressMessages j) @ [(''error'', ''Error: '' @ trim chunk)]"
  by (simp add: on_stderr_def Let_def label_def)

section \<open>The sentinel markers\<close>

lemma substring_ordered: "a \<le> b \<Longrightarrow> substring s a b = take (b - a) (drop a s)"
  by (auto simp: substring_def Let_def min_def max_def)

lemma length_JSON_OUTPUT_START: "length JSON_OUTPUT_START = 23"
  by (simp add: JSON_OUTPUT_START_def)

lemma jsonStr_slice:
  assumes "indexOf out JSON_OUTPUT_START = Some i" and "indexOf out JSON_OUTPUT_END = Some j"
    and "i + 24 \<le> j"
  shows "jsonStr out = Some (trim (take (j - (i + 24)) (drop (i + 24) out)))"
  using assms by (simp add: jsonStr_def substring_ordered)

text \<open>
  Claim C10, as the code has it. The start marker has 23 characters and the code slices
  from 24 characters after its index. When both markers are found and the first end
  marker begins at least 24 characters after the index of the start marker, the text
  handed to \<^verbatim>\<open>JSON.parse\<close> is the trimmed slice of stdout that starts exactly 24
  characters after that index and stops before the end marker. So when the payload follows
  the start marker at once (stdout is \<open>pre\<close>, the marker, the payload \<open>c # payload\<close>, the
  end marker, \<open>post\<close>, and these are the first occurrences of the markers), the first
  character \<open>c\<close> of the payload is not part of the parsed text.
\<close>

theorem parser_text_starts_24_after_marker:
  "length JSON_OUTPUT_START = 23 \<and>
   (indexOf out JSON_OUTPUT_START = Some i \<and> indexOf out JSON_OUTPUT_END = Some j \<and> i + 24 \<le> j
      \<longrightarrow> jsonStr out = Some (trim (take (j - (i + 24)) (drop (i + 24) out)))) \<and>
   (out = pre @ JSON_OUTPUT_START @ c # payload @ JSON_OUTPUT_END @ post \<and>
    indexOf out JSON_OUTPUT_START = Some (length pre) \<and>
    indexOf out JSON_OUTPUT_END = Some (length pre + 24 + length payload)
      \<longrightarrow> jsonStr out = Some (trim payload))"
proof (intro conjI impI)
  show "length JSON_OUTPUT_START = 23" by (rule length_JSON_OUTPUT_START)
next
  assume "indexOf out JSON_OUTPUT_START = Some i \<and> indexOf out JSON_OUTPUT_END = Some j \<and> i + 24 \<le> j"
  then show "jsonStr out = Some (trim (take (j - (i + 24)) (drop (i + 24) out)))"
    by (simp add: jsonStr_slice)
next
  assume a: "out = pre @ JSON_OUTPUT_START @ c # payload @ JSON_OUTPUT_END @ post \<and>
    indexOf out JSON_OUTPUT_START = Some (length pre) \<and>
    indexOf out JSON_OUTPUT_END = Some (length pre + 24 + length payload)"
  from a have i: "indexOf out JSON_OUTPUT_START = Some (length pre)" by blast
  from a have j: "indexOf out JSON_OUTPUT_END = Some (length pre + 24 + length payload)"
    by blast
  from a have o: "out = pre @ JSON_OUTPUT_START @ c # payload @ JSON_OUTPUT_END @ post"
    by blast
  have "jsonStr out = Some (trim (take (length payload) (drop (length pre + 24) out)))"
    using jsonStr_slice [OF i j] by simp
  moreover have "drop (length pre + 24) out = payload @ JSON_OUTPUT_END @ post"
    unfolding o by (simp add: JSON_OUTPUT_START_def)
  ultimately show "jsonStr out = Some (trim payload)" by simp
qed

text \<open>
  The stdout \<^verbatim>\<open>log ===JSON_OUTPUT_START==={}\n===JSON_OUTPUT_END=== done\<close>: the parser
  receives \<^verbatim>\<open>}\<close>. With a newline after the start marker it receives \<^verbatim>\<open>{}\<close>.
\<close>

theorem parser_text_starts_24_after_marker_witness:
  "jsonStr (''log '' @ JSON_OUTPUT_START @ CHR ''{'' # (''}'' @ [CHR 0x0A]) @ JSON_OUTPUT_END @ '' done'') =
     Some ''}'' \<and>
   jsonStr (''log '' @ JSON_OUTPUT_START @ [CHR 0x0A] @ ''{}'' @ [CHR 0x0A] @ JSON_OUTPUT_END @ '' done'') =
     Some ''{}''"
proof -
  let ?out = "''log '' @ JSON_OUTPUT_START @ CHR ''{'' # (''}'' @ [CHR 0x0A]) @ JSON_OUTPUT_END @ '' done''"
  let ?nl = "''log '' @ JSON_OUTPUT_START @ [CHR 0x0A] @ ''{}'' @ [CHR 0x0A] @ JSON_OUTPUT_END @ '' done''"
  have 1: "indexOf ?out JSON_OUTPUT_START = Some (length ''log '')" by code_simp
  have 2: "indexOf ?out JSON_OUTPUT_END = Some (length ''log '' + 24 + length (''}'' @ [CHR 0x0A]))"
    by code_simp
  have 3: "trim (''}'' @ [CHR 0x0A]) = ''}''" by code_simp
  have a: "jsonStr ?out = Some ''}''"
    using parser_text_starts_24_after_marker
      [of ?out _ _ "''log ''" "CHR ''{''" "''}'' @ [CHR 0x0A]" "'' done''"]
      1 2 3 by simp
  have 4: "indexOf ?nl JSON_OUTPUT_START = Some 4" by code_simp
  have 5: "indexOf ?nl JSON_OUTPUT_END = Some 31" by code_simp
  have 6: "trim (take (31 - (4 + 24)) (drop (4 + 24) ?nl)) = ''{}''" by code_simp
  have b: "jsonStr ?nl = Some ''{}''"
    using parser_text_starts_24_after_marker [of ?nl 4 31] 4 5 6 by simp
  show ?thesis using a b by blast
qed

text \<open>
  Where the claim as written fails: both markers are present, the end marker first.
  \<^verbatim>\<open>substring\<close> swaps its arguments when the first is the larger, so the text handed to
  the parser starts at index 0, at the end marker, and is the whole stdout; nothing lies
  24 characters after the index 22 of the start marker.
\<close>

theorem end_marker_first_counterexample:
  "indexOf (JSON_OUTPUT_END @ '' '' @ JSON_OUTPUT_START) JSON_OUTPUT_START = Some 22 \<and>
   indexOf (JSON_OUTPUT_END @ '' '' @ JSON_OUTPUT_START) JSON_OUTPUT_END = Some 0 \<and>
   drop (22 + 24) (JSON_OUTPUT_END @ '' '' @ JSON_OUTPUT_START) = [] \<and>
   jsonStr (JSON_OUTPUT_END @ '' '' @ JSON_OUTPUT_START) =
     Some (JSON_OUTPUT_END @ '' '' @ JSON_OUTPUT_START)"
  by code_simp

text \<open>
  Claim C3, where the code departs from it. The comment of the code says that it looks
  for the JSON between the markers, and the claim says that exactly the trimmed text
  between them is parsed. With the payload of the specification's example right after
  the start marker, no newline between, the text handed to the parser is the payload
  without its opening brace, which is no JSON: the constant 24 is one more than the length
  of the marker. (The same payload on a line of its own is parsed as the claim says:
  \<open>sentinel_example\<close>.)
\<close>

theorem payload_right_after_marker_loses_first_char:
  "jsonStr (JSON_OUTPUT_START @ example_payload @ JSON_OUTPUT_END) = Some (tl example_payload) \<and>
   hd example_payload = CHR ''{'' \<and>
   json_parse example_env example_payload =
     Inr (JObj [(''recommendation'', JStr ''BUY''), (''confidence_score'', to_double False (4 / 5)),
                (''scenarios'', JObj [])])"
  by code_simp

lemma sentinel_example:
  "jsonStr (JSON_OUTPUT_START @ [CHR 0x0A] @ example_payload @ [CHR 0x0A] @ JSON_OUTPUT_END) = Some example_payload \<and>
   resolve_ok example_env (JSON_OUTPUT_START @ [CHR 0x0A] @ example_payload @ [CHR 0x0A] @ JSON_OUTPUT_END) [] =
     Inr (JObj [(''recommendation'', JStr ''BUY''), (''confidence_score'', to_double False (4 / 5)),
                (''scenarios'', JObj []), (''progressMessages'', JArr [] [])])"
  by code_simp

section \<open>The memo file\<close>

text \<open>
  Claim C8, where the code departs from it. \<^verbatim>\<open>runAnalysis\<close> takes the project root two
  levels above \<^verbatim>\<open>__dirname\<close> and gives it to the subprocess as its working directory;
  \<^verbatim>\<open>extractMemoPath\<close> resolves the memo's relative path four levels above
  \<^verbatim>\<open>__dirname\<close>, under the comment "Resolve relative to project root". With the
  service in \<^verbatim>\<open>/srv/app\<close>, the analysis writes \<^verbatim>\<open>/srv/app/outputs/AAPL_memo.md\<close>, the
  code looks for \<^verbatim>\<open>/outputs/AAPL_memo.md\<close>, which does not exist, and the memo of the
  result stays empty.
\<close>

theorem memo_sought_outside_working_directory:
  "projectRoot example_env = ''/srv/app'' \<and>
   files example_env ''/srv/app/outputs/AAPL_memo.md'' = Some (Readable ''# AAPL memo'') \<and>
   extractMemoPath example_env
     (''Recommendation: BUY'' @ [CHR 0x0A] @ ''Investment memo saved to: outputs/AAPL_memo.md'') =
     Some ''/outputs/AAPL_memo.md'' \<and>
   files example_env ''/outputs/AAPL_memo.md'' = None \<and>
   resolve_ok example_env
     (''Recommendation: BUY'' @ [CHR 0x0A] @ ''Investment memo saved to: outputs/AAPL_memo.md'') [] =
     Inr (JObj [(''recommendation'', JStr ''BUY''), (''confidence_score'', JNum 0),
                (''scenarios'', JObj []), (''memo'', JStr []),
                (''progressMessages'', JArr [] [])])"
  by code_simp

section \<open>What the resolver attaches\<close>

lemma set_prop_object:
  assumes "is_object v"
  shows "\<exists>r. set_prop E v k x = Inr r \<and> is_object r \<and>
             (\<forall>k'. get_prop r k' = (if k' = k then Some x else get_prop v k'))"
  using assms by (cases v) (auto simp: update_conv')

lemma set_prop_nonobject: "\<not> is_object v \<Longrightarrow> set_prop E v k x = Inl (type_error E v k)"
  by (cases v) auto

lemma attach_memo_object:
  assumes "is_object v"
  shows "is_object (attach_memo E out v) \<and>
         (\<forall>k. k \<noteq> ''memo'' \<longrightarrow> get_prop (attach_memo E out v) k = get_prop v k)"
proof (cases "extractMemoPath E out")
  case None
  then show ?thesis using assms by (simp add: attach_memo_def)
next
  case (Some memoPath)
  show ?thesis
  proof (cases "files E memoPath")
    case None
    then show ?thesis using assms Some by (simp add: attach_memo_def)
  next
    case (Some entry)
    show ?thesis
    proof (cases entry)
      case Unreadable
      then show ?thesis
        using assms \<open>extractMemoPath E out = Some memoPath\<close> Some by (simp add: attach_memo_def)
    next
      case (Readable content)
      obtain r where "set_prop E v ''memo'' (JStr content) = Inr r" and "is_object r"
        and "\<forall>k'. get_prop r k' = (if k' = ''memo'' then Some (JStr content) else get_prop v k')"
        using set_prop_object [OF assms, of E "''memo''" "JStr content"] by blast
      then show ?thesis
        using \<open>extractMemoPath E out = Some memoPath\<close> Some Readable
        by (simp add: attach_memo_def)
    qed
  qed
qed

lemma attach_memo_nonobject: "\<not> is_object v \<Longrightarrow> attach_memo E out v = v"
  by (simp add: attach_memo_def set_prop_nonobject split: option.splits fs_entry.splits)

lemma deliver_object:
  assumes "is_object v"
  shows "\<exists>r. deliver E out pm v = Inr r \<and> is_object r \<and>
             get_prop r ''parseError'' = get_prop v ''parseError''"
proof -
  have m: "is_object (attach_memo E out v)"
    and p: "get_prop (attach_memo E out v) ''parseError'' = get_prop v ''parseError''"
    using attach_memo_object [OF assms, of E out] by simp_all
  obtain r where "set_prop E (attach_memo E out v) ''progressMessages'' (progress_array pm) = Inr r"
    and "is_object r"
    and "\<forall>k'. get_prop r k' =
           (if k' = ''progressMessages'' then Some (progress_array pm)
            else get_prop (attach_memo E out v) k')"
    using set_prop_object [OF m] by blast
  then show ?thesis using p by (simp add: deliver_def)
qed

lemma deliver_nonobject:
  "\<not> is_object v \<Longrightarrow> deliver E out pm v = Inl (type_error E v ''progressMessages'')"
  by (simp add: deliver_def attach_memo_nonobject set_prop_nonobject)

lemma parseTextOutput_object:
  "is_object (parseTextOutput out) \<and> get_prop (parseTextOutput out) ''parseError'' = None"
  by (simp add: parseTextOutput_def)

lemma deliver_heuristic:
  "\<exists>kvs. deliver E out pm (parseTextOutput out) = Inr (JObj kvs) \<and> map_of kvs ''parseError'' = None"
proof -
  obtain kvs where k: "attach_memo E out (parseTextOutput out) = JObj kvs"
    and n: "map_of kvs ''parseError'' = None"
  proof (cases "attach_memo E out (parseTextOutput out)")
    case (JObj kvs)
    moreover have "get_prop (attach_memo E out (parseTextOutput out)) ''parseError'' = None"
      using attach_memo_object [of "parseTextOutput out" E out] parseTextOutput_object [of out]
      by simp
    ultimately show ?thesis using that by simp
  qed (simp_all add: parseTextOutput_def attach_memo_def
        split: option.splits fs_entry.splits)
  show ?thesis
    by (simp add: deliver_def k n update_conv')
qed

lemma try_block_structured:
  "try_block E out pm =
     (case structured_text out of
        Some text \<Rightarrow> (case json_parse E text of Inl e \<Rightarrow> Inl e | Inr v \<Rightarrow> deliver E out pm v)
      | None \<Rightarrow> deliver E out pm (parseTextOutput out))"
  by (simp add: try_block_def structured_text_def split: option.splits)

lemma try_block_throws_iff:
  "try_block E out pm = Inl msg \<longleftrightarrow>
     (\<exists>text. structured_text out = Some text \<and>
        (json_parse E text = Inl msg \<or>
         (\<exists>v. json_parse E text = Inr v \<and> \<not> is_object v \<and>
              msg = type_error E v ''progressMessages'')))"
proof (cases "structured_text out")
  case None
  then show ?thesis
    using deliver_heuristic [of E out pm] by (auto simp: try_block_structured)
next
  case (Some t)
  show ?thesis
  proof (cases "json_parse E t")
    case (Inl e)
    then show ?thesis using Some by (auto simp: try_block_structured)
  next
    case (Inr v)
    show ?thesis
    proof (cases "is_object v")
      case True
      then show ?thesis
        using Some Inr deliver_object [OF True, of E out pm] by (auto simp: try_block_structured)
    next
      case False
      then show ?thesis
        using Some Inr by (auto simp: try_block_structured deliver_nonobject)
    qed
  qed
qed

lemma resolve_ok_fallback:
  assumes "try_block E out pm = Inl msg"
  shows "\<exists>kvs. deliver E out pm (parseTextOutput out) = Inr (JObj kvs) \<and>
               resolve_ok E out pm = Inr (JObj (AList.update ''parseError'' (JStr msg) kvs))"
  using assms deliver_heuristic [of E out pm]
  by (auto simp: resolve_ok_def catch_block_def)

lemma resolve_ok_returns: "\<exists>r. resolve_ok E out pm = Inr r \<and> is_object r"
proof (cases "try_block E out pm")
  case (Inl msg)
  then show ?thesis using resolve_ok_fallback [OF Inl] by auto
next
  case (Inr r)
  have "is_object r"
  proof (cases "structured_text out")
    case None
    then show ?thesis
      using Inr deliver_object [of "parseTextOutput out" E out pm] parseTextOutput_object [of out]
      by (auto simp: try_block_structured)
  next
    case (Some t)
    show ?thesis
    proof (cases "json_parse E t")
      case (Inl e)
      then show ?thesis using Some Inr by (simp add: try_block_structured)
    next
      case v: (Inr v)
      show ?thesis
      proof (cases "is_object v")
        case True
        then show ?thesis
          using Some v Inr deliver_object [OF True, of E out pm]
          by (auto simp: try_block_structured)
      next
        case False
        then show ?thesis
          using Some v Inr by (simp add: try_block_structured deliver_nonobject)
      qed
    qed
  qed
  then show ?thesis using Inr by (simp add: resolve_ok_def)
qed

lemma attach_memo_readable:
  assumes "extractMemoPath E out = Some p" and "files E p = Some (Readable content)"
    and "is_object v"
  shows "get_prop (attach_memo E out v) ''memo'' = Some (JStr content)"
proof -
  obtain r where "set_prop E v ''memo'' (JStr content) = Inr r"
    and "\<forall>k'. get_prop r k' = (if k' = ''memo'' then Some (JStr content) else get_prop v k')"
    using set_prop_object [OF assms(3), of E "''memo''" "JStr content"] by blast
  then show ?thesis using assms(1,2) by (simp add: attach_memo_def)
qed

lemma attach_memo_unreadable:
  assumes "extractMemoPath E out = Some p" and "files E p = Some Unreadable"
  shows "attach_memo E out v = v"
  using assms by (simp add: attach_memo_def)

text \<open>
  Claim C5, as the code has it. The handler for exit code 0 always resolves with an
  object. Its \<^verbatim>\<open>try\<close> block throws in two cases only: \<^verbatim>\<open>JSON.parse\<close> throws on the
  sentinel text or on the brace span, or the parsed value is \<^verbatim>\<open>null\<close> or a primitive, so
  that the assignment of \<^verbatim>\<open>progressMessages\<close> throws. Then, and only then, the handler
  falls back to the heuristic extraction and sets \<^verbatim>\<open>parseError\<close> to the message of that
  exception. On the purely heuristic path \<^verbatim>\<open>parseError\<close> is unset. After a parse that
  gave an object the handler does not touch \<^verbatim>\<open>parseError\<close>: it is what the payload
  carried, unset when it carried none.
\<close>

theorem parseError_marks_a_failed_try_block:
  "(\<exists>r. resolve_ok E out pm = Inr r \<and> is_object r) \<and>
   (try_block E out pm = Inl msg \<longleftrightarrow>
      (\<exists>text. structured_text out = Some text \<and>
         (json_parse E text = Inl msg \<or>
          (\<exists>v. json_parse E text = Inr v \<and> \<not> is_object v \<and>
               msg = type_error E v ''progressMessages'')))) \<and>
   (try_block E out pm = Inl msg \<longrightarrow>
      (\<exists>kvs. deliver E out pm (parseTextOutput out) = Inr (JObj kvs) \<and>
             resolve_ok E out pm = Inr (JObj (AList.update ''parseError'' (JStr msg) kvs)))) \<and>
   (structured_text out = None \<longrightarrow>
      (\<exists>r. resolve_ok E out pm = Inr r \<and> get_prop r ''parseError'' = None)) \<and>
   (structured_text out = Some text \<and> json_parse E text = Inr v \<and> is_object v \<longrightarrow>
      (\<exists>r. resolve_ok E out pm = Inr r \<and> get_prop r ''parseError'' = get_prop v ''parseError''))"
proof (intro conjI impI)
  show "\<exists>r. resolve_ok E out pm = Inr r \<and> is_object r" by (rule resolve_ok_returns)
  show "try_block E out pm = Inl msg \<longleftrightarrow>
      (\<exists>text. structured_text out = Some text \<and>
         (json_parse E text = Inl msg \<or>
          (\<exists>v. json_parse E text = Inr v \<and> \<not> is_object v \<and>
               msg = type_error E v ''progressMessages'')))"
    by (rule try_block_throws_iff)
next
  assume "try_block E out pm = Inl msg"
  then show "\<exists>kvs. deliver E out pm (parseTextOutput out) = Inr (JObj kvs) \<and>
             resolve_ok E out pm = Inr (JObj (AList.update ''parseError'' (JStr msg) kvs))"
    by (rule resolve_ok_fallback)
next
  assume "structured_text out = None"
  then show "\<exists>r. resolve_ok E out pm = Inr r \<and> get_prop r ''parseError'' = None"
    using deliver_heuristic [of E out pm]
    by (auto simp: resolve_ok_def try_block_structured)
next
  assume a: "structured_text out = Some text \<and> json_parse E text = Inr v \<and> is_object v"
  then obtain r where "deliver E out pm v = Inr r"
    and "get_prop r ''parseError'' = get_prop v ''parseError''"
    using deliver_object [of v E out pm] by blast
  then show "\<exists>r. resolve_ok E out pm = Inr r \<and> get_prop r ''parseError'' = get_prop v ''parseError''"
    using a by (simp add: resolve_ok_def try_block_structured)
qed

text \<open>
  Malformed JSON between the markers: the heuristic fields, and \<^verbatim>\<open>parseError\<close> set to
  the message of the parse failure. Plain text, and the payload of the specification's
  example between the markers: no \<^verbatim>\<open>parseError\<close>.
\<close>

theorem parseError_marks_a_failed_try_block_witness:
  "resolve_ok example_env
     (JSON_OUTPUT_START @ [CHR 0x0A] @ ''{bad'' @ [CHR 0x0A] @ JSON_OUTPUT_END @ [CHR 0x0A] @
      ''Recommendation: HOLD'') [] =
   Inr (JObj [(''recommendation'', JStr ''HOLD''), (''confidence_score'', JNum 0),
              (''scenarios'', JObj []), (''memo'', JStr []), (''progressMessages'', JArr [] []),
              (''parseError'', JStr ''Unexpected token in JSON'')]) \<and>
   (\<exists>r. resolve_ok example_env ''Recommendation: BUY'' [] = Inr r \<and>
        get_prop r ''parseError'' = None) \<and>
   (\<exists>r. resolve_ok example_env
          (JSON_OUTPUT_START @ [CHR 0x0A] @ example_payload @ [CHR 0x0A] @ JSON_OUTPUT_END) [] = Inr r \<and>
        get_prop r ''parseError'' = None)"
proof -
  let ?out = "JSON_OUTPUT_START @ [CHR 0x0A] @ ''{bad'' @ [CHR 0x0A] @ JSON_OUTPUT_END @
              [CHR 0x0A] @ ''Recommendation: HOLD''"
  let ?ok = "JSON_OUTPUT_START @ [CHR 0x0A] @ example_payload @ [CHR 0x0A] @ JSON_OUTPUT_END"
  let ?v = "JObj [(''recommendation'', JStr ''BUY''), (''confidence_score'', to_double False (4 / 5)),
                  (''scenarios'', JObj [])]"
  have t: "try_block example_env ?out [] = Inl ''Unexpected token in JSON''" by code_simp
  have d: "deliver example_env ?out [] (parseTextOutput ?out) =
             Inr (JObj [(''recommendation'', JStr ''HOLD''), (''confidence_score'', JNum 0),
                        (''scenarios'', JObj []), (''memo'', JStr []),
                        (''progressMessages'', JArr [] [])])"
    by code_simp
  have "\<exists>kvs. deliver example_env ?out [] (parseTextOutput ?out) = Inr (JObj kvs) \<and>
          resolve_ok example_env ?out [] =
            Inr (JObj (AList.update ''parseError'' (JStr ''Unexpected token in JSON'') kvs))"
    using parseError_marks_a_failed_try_block
      [of example_env ?out "[]" "''Unexpected token in JSON''"] t by blast
  then have 1: "resolve_ok example_env ?out [] =
      Inr (JObj [(''recommendation'', JStr ''HOLD''), (''confidence_score'', JNum 0),
                 (''scenarios'', JObj []), (''memo'', JStr []), (''progressMessages'', JArr [] []),
                 (''parseError'', JStr ''Unexpected token in JSON'')])"
    unfolding d by auto
  have n: "structured_text ''Recommendation: BUY'' = None" by code_simp
  have 2: "\<exists>r. resolve_ok example_env ''Recommendation: BUY'' [] = Inr r \<and>
             get_prop r ''parseError'' = None"
    using parseError_marks_a_failed_try_block [of example_env "''Recommendation: BUY''" "[]"] n
    by blast
  have s: "structured_text ?ok = Some example_payload" by code_simp
  have p: "json_parse example_env example_payload = Inr ?v" by code_simp
  have "\<exists>r. resolve_ok example_env ?ok [] = Inr r \<and>
             get_prop r ''parseError'' = get_prop ?v ''parseError''"
    using parseError_marks_a_failed_try_block [of example_env ?ok "[]" _ example_payload ?v] s p
    by simp
  then have 3: "\<exists>r. resolve_ok example_env ?ok [] = Inr r \<and> get_prop r ''parseError'' = None"
    by simp
  show ?thesis using 1 2 3 by blast
qed

text \<open>
  Where the claim as written fails: the payload \<^verbatim>\<open>null\<close> between the markers is
  well-formed and \<^verbatim>\<open>JSON.parse\<close> does not throw, yet \<^verbatim>\<open>parseError\<close> is populated, with
  the message of the \<^verbatim>\<open>TypeError\<close> of \<^verbatim>\<open>result.progressMessages = ...\<close>. And the
  payload \<^verbatim>\<open>{"parseError":"stale"}\<close> is parsed without a failure and returned with its
  \<^verbatim>\<open>parseError\<close>.
\<close>

theorem parseError_without_parse_failure_counterexample:
  "jsonStr (JSON_OUTPUT_START @ [CHR 0x0A] @ ''null'' @ [CHR 0x0A] @ JSON_OUTPUT_END) = Some ''null'' \<and>
   json_parse example_env ''null'' = Inr JNull \<and>
   resolve_ok example_env
     (JSON_OUTPUT_START @ [CHR 0x0A] @ ''null'' @ [CHR 0x0A] @ JSON_OUTPUT_END) [] =
   Inr (JObj [(''recommendation'', JStr []), (''confidence_score'', JNum 0),
              (''scenarios'', JObj []), (''memo'', JStr []), (''progressMessages'', JArr [] []),
              (''parseError'',
               JStr (''Cannot set properties of null (setting '' @ [CHR 0x27] @
                     ''progressMessages'' @ [CHR 0x27] @ '')''))]) \<and>
   jsonStr (JSON_OUTPUT_START @ [CHR 0x0A] @ flagged_payload @ [CHR 0x0A] @ JSON_OUTPUT_END) =
     Some flagged_payload \<and>
   json_parse example_env flagged_payload = Inr (JObj [(''parseError'', JStr ''stale'')]) \<and>
   resolve_ok example_env
     (JSON_OUTPUT_START @ [CHR 0x0A] @ flagged_payload @ [CHR 0x0A] @ JSON_OUTPUT_END) [] =
   Inr (JObj [(''parseError'', JStr ''stale''), (''progressMessages'', JArr [] [])])"
  by code_simp

section \<open>The arithmetic of doubles\<close>

text \<open>
  What \<open>to_double\<close> computes. \<open>ilog2\<close> finds the binade (\<open>ilog2_bounds\<close>). A finite result
  is a multiple \<open>n\<close> of the unit of that binade, with \<open>n\<close> at most \<open>2\<^sup>5\<^sup>3\<close>, and it lies within
  half a unit of the number rounded (\<open>to_double_nearest\<close>); a natural number below
  \<open>2\<^sup>5\<^sup>3\<close> is a double and is left as it is (\<open>to_double_exact_nat\<close>); from \<open>2\<^sup>1\<^sup>0\<^sup>2\<^sup>4\<close> on the
  result is the infinity (\<open>to_double_overflow\<close>).
\<close>

lemma log2_int_bounds:
  "1 \<le> n \<Longrightarrow> 0 \<le> log2_int n \<and> 2 ^ nat (log2_int n) \<le> n \<and> n < 2 * 2 ^ nat (log2_int n)"
proof (induction n rule: log2_int.induct)
  case (1 n)
  show ?case
  proof (cases "n < 2")
    case True
    with 1(2) have "n = 1" by simp
    then show ?thesis by (simp add: log2_int.simps)
  next
    case False
    then have h: "1 \<le> n div 2" by simp
    note ih = "1.IH" [OF False h]
    have e: "log2_int n = 1 + log2_int (n div 2)"
      using False by (subst log2_int.simps) simp
    have p: "nat (1 + log2_int (n div 2)) = Suc (nat (log2_int (n div 2)))"
      using ih by linarith
    have "2 * (n div 2) \<le> n" by simp
    moreover have "n < 2 * (n div 2) + 2" by presburger
    ultimately show ?thesis using ih unfolding e p by auto
  qed
qed

lemma pow2_pos: "0 < pow2 e"
  by (simp add: pow2_def)

lemma pow2_powi: "pow2 e = 2 powi e"
  by (simp add: pow2_def power_int_def power_inverse [symmetric] inverse_eq_divide power_one_over)

lemma pow2_add: "pow2 (x + y) = pow2 x * pow2 y"
  by (simp add: pow2_powi power_int_add)

lemma pow2_mono: "x \<le> y \<Longrightarrow> pow2 x \<le> pow2 y"
  by (simp add: pow2_powi power_int_increasing)

lemma pow2_Suc: "pow2 (e + 1) = 2 * pow2 e"
  using pow2_add [of e 1] by (simp add: pow2_def)

lemma ilog2_bounds:
  assumes "0 < a"
  shows "pow2 (ilog2 a) \<le> a \<and> a < pow2 (ilog2 a + 1)"
proof (cases "1 \<le> a")
  case True
  let ?n = "\<lfloor>a\<rfloor>"
  have n: "1 \<le> ?n" using True by simp
  note b = log2_int_bounds [OF n]
  have e: "ilog2 a = log2_int ?n" using True by (simp add: ilog2_def)
  have 1: "pow2 (log2_int ?n) = 2 ^ nat (log2_int ?n)" using b by (simp add: pow2_def)
  have "(of_int (2 ^ nat (log2_int ?n)) :: rat) \<le> of_int ?n"
    using b by (simp only: of_int_le_iff)
  also have "\<dots> \<le> a" by simp
  finally have lo: "pow2 (ilog2 a) \<le> a" by (simp add: e 1)
  have "?n + 1 \<le> 2 * 2 ^ nat (log2_int ?n)" using b by simp
  then have "(of_int (?n + 1) :: rat) \<le> of_int (2 * 2 ^ nat (log2_int ?n))"
    by (simp only: of_int_le_iff)
  moreover have "a < of_int (?n + 1)" by simp linarith
  ultimately have "a < 2 * 2 ^ nat (log2_int ?n)" by simp
  then have hi: "a < pow2 (ilog2 a + 1)" by (simp add: pow2_Suc e 1)
  show ?thesis using lo hi by simp
next
  case False
  define c where "c = \<lceil>1 / a\<rceil>"
  define k where "k = log2_int (c - 1)"
  have b1: "1 < 1 / a" using False assms by simp
  have c1: "1 / a \<le> of_int c" and c2: "of_int c - 1 < 1 / a"
    unfolding c_def by linarith+
  have "1 < (of_int c :: rat)" using b1 c1 by linarith
  then have c: "1 \<le> c - 1" by simp
  have b: "0 \<le> k" "2 ^ nat k \<le> c - 1" "c - 1 < 2 * 2 ^ nat k"
    using log2_int_bounds [OF c] by (simp_all add: k_def)
  have e: "ilog2 a = - (1 + k)" using False by (simp add: ilog2_def k_def c_def)
  have 1: "pow2 (- (1 + k)) = 1 / (2 * 2 ^ nat k)"
    using b(1) by (simp add: pow2_def nat_add_distrib)
  have 2: "pow2 (- (1 + k) + 1) = 1 / 2 ^ nat k"
    using pow2_Suc [of "- (1 + k)"] 1 by simp
  have "c \<le> 2 * 2 ^ nat k" using b by simp
  then have "(of_int c :: rat) \<le> of_int (2 * 2 ^ nat k)" by (simp only: of_int_le_iff)
  then have "(of_int c :: rat) \<le> 2 * 2 ^ nat k" by simp
  then have "1 / a \<le> 2 * 2 ^ nat k" using c1 by linarith
  then have lo: "1 / (2 * 2 ^ nat k) \<le> a"
    using assms by (simp add: field_simps)
  have "(of_int (2 ^ nat k) :: rat) \<le> of_int (c - 1)" using b by (simp only: of_int_le_iff)
  then have "(2 ^ nat k :: rat) \<le> of_int c - 1" by simp
  then have "2 ^ nat k < 1 / a" using c2 by linarith
  then have hi: "a < 1 / 2 ^ nat k"
    using assms by (simp add: field_simps)
  show ?thesis unfolding e 1 2 using lo hi by blast
qed

lemma round_half_even_near: "\<bar>of_int (round_half_even m) - m\<bar> \<le> 1 / 2"
proof -
  define f where "f = \<lfloor>m\<rfloor>"
  have 1: "of_int f \<le> m" and 2: "m < of_int f + 1"
    unfolding f_def by linarith+
  have r: "round_half_even m =
     (if m - of_int f < 1 / 2 then f else if 1 / 2 < m - of_int f then f + 1
      else if even f then f else f + 1)"
    by (simp add: round_half_even_def Let_def f_def)
  show ?thesis
    unfolding r using 1 2 by (auto simp: abs_if)
qed


lemma round_half_even_int: "round_half_even (of_int m) = m"
  by (simp add: round_half_even_def)

lemma round_half_even_nonneg: "0 \<le> m \<Longrightarrow> 0 \<le> round_half_even m"
  by (simp add: round_half_even_def Let_def)

lemma round_half_even_le: "m \<le> of_int k \<Longrightarrow> round_half_even m \<le> k"
proof -
  assume a: "m \<le> of_int k"
  define f where "f = \<lfloor>m\<rfloor>"
  have 1: "of_int f \<le> m" and 2: "m < of_int f + 1"
    unfolding f_def by linarith+
  have r: "round_half_even m =
     (if m - of_int f < 1 / 2 then f else if 1 / 2 < m - of_int f then f + 1
      else if even f then f else f + 1)"
    by (simp add: round_half_even_def Let_def f_def)
  have fk: "f \<le> k" using 1 a by linarith
  show ?thesis
  proof (cases "f = k")
    case True
    then have "m = of_int k" using 1 a by simp
    then show ?thesis by (simp add: round_half_even_int)
  next
    case False
    then have "f + 1 \<le> k" using fk by simp
    then show ?thesis using fk by (simp add: r)
  qed
qed

lemma to_double_exact_nat:
  assumes "n < 2 ^ 53"
  shows "to_double False (of_nat n) = JNum (of_nat n)"
proof (cases "n = 0")
  case True
  then show ?thesis by (simp add: to_double_def signed_zero_def)
next
  case False
  define e where "e = log2_int (int n)"
  have n1: "1 \<le> int n" using False by simp
  have b: "0 \<le> e" "2 ^ nat e \<le> int n" "int n < 2 * 2 ^ nat e"
    using log2_int_bounds [OF n1] by (simp_all add: e_def)
  have "int n < int (2 ^ 53)" using assms by (simp only: of_nat_less_iff)
  then have "int n < 2 ^ 53" by (simp only: of_nat_power of_nat_numeral)
  then have lt: "(2::int) ^ nat e < 2 ^ 53" using b(2) by (rule le_less_trans [rotated])
  have "(1::int) < 2" by simp
  from power_less_imp_less_exp [OF this lt] have "nat e < 53" .
  then have e52: "e \<le> 52" by simp
  have il: "ilog2 (of_nat n) = e"
    using False by (simp add: ilog2_def e_def)
  define k where "k = nat (52 - e)"
  have ulp: "pow2 (e - 52) = 1 / 2 ^ k"
  proof (cases "e = 52")
    case True
    then show ?thesis by (simp add: pow2_def k_def)
  next
    case False
    then have "\<not> 0 \<le> e - 52" using e52 by simp
    then show ?thesis by (simp add: pow2_def k_def)
  qed
  have q: "(of_nat n :: rat) * 2 ^ k = of_int (int n * 2 ^ k)" by simp
  have r: "round_half_even ((of_nat n :: rat) * 2 ^ k) = int n * 2 ^ k"
    unfolding q by (rule round_half_even_int)
  have mx: "max e (- 1022) = e" using b(1) by simp
  have pos: "\<not> (of_nat n :: rat) \<le> 0" using False by simp
  show ?thesis
    using e52 False pos by (simp add: to_double_def Let_def il mx ulp r del: of_nat_le_0_iff)
qed

lemma to_double_overflow:
  assumes "pow2 1024 \<le> a"
  shows "to_double neg a = JInfinity neg"
proof -
  have "pow2 0 \<le> pow2 1024" by (rule pow2_mono) simp
  then have a1: "1 \<le> a" using assms by (simp add: pow2_def)
  define e where "e = log2_int \<lfloor>a\<rfloor>"
  have n1: "1 \<le> \<lfloor>a\<rfloor>" using a1 by simp
  have b: "0 \<le> e" "\<lfloor>a\<rfloor> < 2 * 2 ^ nat e"
    using log2_int_bounds [OF n1] by (simp_all add: e_def)
  have "pow2 1024 = of_int (2 ^ 1024)" by (simp add: pow2_def)
  then have "(of_int (2 ^ 1024) :: rat) \<le> a" using assms by (simp only:)
  then have "2 ^ 1024 \<le> \<lfloor>a\<rfloor>" by (simp only: le_floor_iff)
  then have "(2::int) ^ 1024 < 2 * 2 ^ nat e" using b(2) by (rule le_less_trans)
  then have lt: "(2::int) ^ 1024 < 2 ^ Suc (nat e)" by (simp only: power_Suc)
  have "(1::int) < 2" by simp
  from power_less_imp_less_exp [OF this lt] have "1024 < Suc (nat e)" .
  then have "1024 \<le> e" by linarith
  moreover have "ilog2 a = e" using a1 by (simp add: ilog2_def e_def)
  moreover have "\<not> a \<le> 0" using a1 by linarith
  ultimately show ?thesis by (simp add: to_double_def Let_def)
qed

lemma to_double_nearest:
  assumes "0 < a" and "to_double neg a = JNum r"
  shows "\<exists>n. 0 \<le> n \<and> n \<le> 2 ^ 53 \<and>
           r = (if neg then - 1 else 1) * of_int n * pow2 (max (ilog2 a) (- 1022) - 52) \<and>
           \<bar>of_int n * pow2 (max (ilog2 a) (- 1022) - 52) - a\<bar>
             \<le> pow2 (max (ilog2 a) (- 1022) - 53)"
proof -
  define e where "e = max (ilog2 a) (- 1022)"
  define ulp where "ulp = pow2 (e - 52)"
  define n where "n = round_half_even (a / ulp)"
  have up: "0 < ulp" by (simp add: ulp_def pow2_pos)
  have na: "\<not> a \<le> 0" using assms(1) by simp
  have td: "to_double neg a =
     (if 1024 \<le> e then JInfinity neg
      else if e = 1023 \<and> 2 ^ 53 \<le> n then JInfinity neg
      else if n = 0 then signed_zero neg
      else JNum ((if neg then - 1 else 1) * of_int n * ulp))"
    unfolding to_double_def Let_def e_def ulp_def n_def by (simp only: na if_False)
  have rr: "r = (if neg then - 1 else 1) * of_int n * ulp"
    using assms(2) unfolding td by (auto simp: signed_zero_def split: if_splits)
  have "0 \<le> a / ulp" using assms(1) up by simp
  then have n0: "0 \<le> n" unfolding n_def by (rule round_half_even_nonneg)
  have hi: "a < pow2 (e + 1)"
  proof -
    have "a < pow2 (ilog2 a + 1)" using ilog2_bounds [OF assms(1)] by simp
    also have "\<dots> \<le> pow2 (e + 1)" by (rule pow2_mono) (simp add: e_def)
    finally show ?thesis .
  qed
  have "pow2 (e + 1) = pow2 53 * ulp"
    using pow2_add [of 53 "e - 52"] by (simp add: ulp_def add.commute)
  moreover have "pow2 53 = of_int (2 ^ 53)" by (simp add: pow2_def)
  ultimately have "a < of_int (2 ^ 53) * ulp" using hi by (simp only:)
  then have "a / ulp \<le> of_int (2 ^ 53)" using up by (simp only: pos_divide_le_eq less_imp_le)
  then have nle: "n \<le> 2 ^ 53" unfolding n_def by (rule round_half_even_le)
  have "\<bar>of_int n - a / ulp\<bar> \<le> 1 / 2" unfolding n_def by (rule round_half_even_near)
  then have "\<bar>of_int n - a / ulp\<bar> * ulp \<le> 1 / 2 * ulp"
    using up by (simp only: mult_le_cancel_right_pos)
  moreover have "\<bar>of_int n - a / ulp\<bar> * ulp = \<bar>of_int n * ulp - a\<bar>"
  proof -
    have "\<bar>of_int n - a / ulp\<bar> * ulp = \<bar>(of_int n - a / ulp) * ulp\<bar>"
      using up by (simp add: abs_mult)
    also have "(of_int n - a / ulp) * ulp = of_int n * ulp - a"
      using up by (simp add: left_diff_distrib)
    finally show ?thesis .
  qed
  moreover have "pow2 (e - 53) = 1 / 2 * ulp"
    using pow2_add [of "- 1" "e - 52"] by (simp add: ulp_def pow2_def)
  ultimately have near: "\<bar>of_int n * ulp - a\<bar> \<le> pow2 (e - 53)" by simp
  show ?thesis
    using n0 nle rr near unfolding e_def ulp_def by blast
qed

text \<open>
  The arithmetic at a few numbers: \<^verbatim>\<open>1.1\<close> is rounded when it is read and again when it
  is divided, which gives the double written \<^verbatim>\<open>0.011000000000000001\<close>; \<open>2\<^sup>5\<^sup>3 + 1\<close> lies
  halfway between two doubles and becomes \<open>2\<^sup>5\<^sup>3\<close>.
\<close>

lemma double_arithmetic_examples:
  "parseFloat ''1.1'' = JNum (2476979795053773 / 2251799813685248) \<and>
   percent ''1.1'' = JNum (6341068275337659 / 576460752303423488) \<and>
   parseFloat ''9007199254740993'' = JNum 9007199254740992 \<and>
   parseFloat ''-0'' = JNegZero \<and> percent ''-0'' = JNegZero \<and>
   parseFloat ''..'' = JNaN \<and> percent ''..'' = JNaN"
  by code_simp

section \<open>The scenarios of the heuristic extraction\<close>

lemma first_match_Some: "first_match m s = Some r \<Longrightarrow> \<exists>t. m t = Some r"
  by (induction s) (auto split: option.splits)

lemma is_digit_not_space: "is_digit c \<Longrightarrow> \<not> is_space c"
  by (auto simp: is_digit_def is_space_def Let_def)

lemma is_digit_not_sign: "is_digit c \<Longrightarrow> c \<noteq> CHR ''-'' \<and> c \<noteq> CHR ''+'' \<and> c \<noteq> CHR ''.''"
  by (auto simp: is_digit_def Let_def)

lemma parseFloat_digits:
  assumes "g \<noteq> []" and "\<forall>c \<in> set g. is_digit c"
  shows "parseFloat g = to_double False (of_nat (digits_value g))"
proof -
  obtain c cs where g: "g = c # cs" using assms(1) by (cases g) auto
  have c: "is_digit c" using assms(2) g by simp
  have 1: "dropWhile is_space g = g" using c is_digit_not_space g by simp
  have 2: "takeWhile is_digit g = g" using assms(2) by (simp add: takeWhile_eq_all_conv)
  have 3: "dropWhile is_digit g = []" using assms(2) by (simp add: dropWhile_eq_Nil_conv)
  have 4: "hd g \<noteq> CHR ''-'' \<and> hd g \<noteq> CHR ''+''" using c is_digit_not_sign g by simp
  have 5: "digits_value [] = 0" by (simp add: digits_value_def)
  show ?thesis
    using assms(1) 4 by (simp add: parseFloat_def Let_def 1 2 3 5)
qed

lemma scenario_at_prob_digits:
  assumes "scenario_at scenario s = Some (g1, g2)"
  shows "g2 \<noteq> [] \<and> (\<forall>c \<in> set g2. is_digit c)"
  using assms
  by (auto simp: scenario_at_def Let_def split: option.splits if_splits dest: set_takeWhileD)

lemma map_of_keyed_map_filter:
  "map_of (List.map_filter (\<lambda>k. map_option (Pair k) (f k)) ks) k =
     (if k \<in> set ks then f k else None)"
proof (induction ks)
  case Nil
  show ?case by (simp add: List.map_filter_simps)
next
  case (Cons a ks)
  show ?case
    by (cases "f a") (auto simp: List.map_filter_simps Cons.IH)
qed

lemma scenario_entry_keyed:
  "scenario_entry text =
     (\<lambda>k. map_option (Pair k)
        (map_option (\<lambda>(g1, g2). JObj [(''return'', percent g1), (''prob'', percent g2)])
           (first_match (scenario_at k) text)))"
  by (rule ext) (simp add: scenario_entry_def split: option.splits)

lemma map_of_scenarios:
  assumes "first_match scenarios_at output = Some text"
    and "first_match (scenario_at scenario) text = Some (g1, g2)"
    and "scenario = ''bull'' \<or> scenario = ''base'' \<or> scenario = ''bear''"
  shows "map_of (scenarios_of output) scenario =
           Some (JObj [(''return'', percent g1), (''prob'', percent g2)])"
proof -
  have "scenario \<in> set [''bull'', ''base'', ''bear'']"
    using assms(3) by (simp only: list.set insert_iff) blast
  then show ?thesis
    unfolding scenarios_of_def assms(1) option.case scenario_entry_keyed map_of_keyed_map_filter
    by (simp only: if_True assms(2) option.map prod.case)
qed

text \<open>
  Claim C9, as the code has it. When the scenarios section matches the pattern of a
  scenario among bull, base and bear, with the captured numbers \<open>g1\<close> and \<open>g2\<close>, the
  result holds under that name the return \<^verbatim>\<open>parseFloat(g1) / 100\<close> and the probability
  \<^verbatim>\<open>parseFloat(g2) / 100\<close>, in the arithmetic of doubles: the number read is the double
  nearest to the decimal, and what is stored is the double nearest to the hundredth of
  that number. The percentages are stored as fractions, divided by 100, with no bound on
  their range. (\<open>g1\<close> can be a run of dots, which gives \<^verbatim>\<open>NaN\<close>; \<open>g2\<close> is a run of
  digits, whose number is the double nearest to the natural number they write.)
\<close>

theorem scenario_numbers_divided_by_100:
  assumes "first_match scenarios_at output = Some text"
    and "first_match (scenario_at scenario) text = Some (g1, g2)"
    and "scenario = ''bull'' \<or> scenario = ''base'' \<or> scenario = ''bear''"
  shows "get_prop (parseTextOutput output) ''scenarios'' = Some (JObj (scenarios_of output)) \<and>
         map_of (scenarios_of output) scenario =
           Some (JObj [(''return'', divide_by_100 (parseFloat g1)),
                       (''prob'', divide_by_100 (to_double False (of_nat (digits_value g2))))])"
proof -
  obtain t where "scenario_at scenario t = Some (g1, g2)"
    using first_match_Some [OF assms(2)] by blast
  then have "parseFloat g2 = to_double False (of_nat (digits_value g2))"
    using scenario_at_prob_digits parseFloat_digits by blast
  then have "percent g2 = divide_by_100 (to_double False (of_nat (digits_value g2)))"
    by (simp add: percent_def)
  then show ?thesis
    using map_of_scenarios [OF assms] by (simp add: parseTextOutput_def percent_def)
qed

text \<open>
  A downside of 250.5 percent with a probability of 120 percent: the doubles written
  \<^verbatim>\<open>-2.505\<close> and \<^verbatim>\<open>1.2\<close>, outside any canonical range.
\<close>

theorem scenario_numbers_divided_by_100_witness:
  "map_of (scenarios_of (''Scenarios:'' @ [CHR 0x0A] @ ''Bear case: -250.5% downside, 120% probability''))
     ''bear'' = Some (JObj [(''return'', JNum (- (2820379266640773 / 1125899906842624))),
                            (''prob'', JNum (5404319552844595 / 4503599627370496))])"
proof -
  let ?out = "''Scenarios:'' @ [CHR 0x0A] @ ''Bear case: -250.5% downside, 120% probability''"
  let ?text = "[CHR 0x0A] @ ''Bear case: -250.5% downside, 120% probability''"
  have 1: "first_match scenarios_at ?out = Some ?text" by code_simp
  have 2: "first_match (scenario_at ''bear'') ?text = Some (''-250.5'', ''120'')" by code_simp
  have 3: "divide_by_100 (parseFloat ''-250.5'') =
             JNum (- (2820379266640773 / 1125899906842624))" by code_simp
  have 4: "divide_by_100 (to_double False (of_nat (digits_value ''120''))) =
             JNum (5404319552844595 / 4503599627370496)" by code_simp
  show ?thesis
    using scenario_numbers_divided_by_100 [OF 1 2] by (simp only: 3 4) simp
qed

text \<open>
  Where the claim as written fails: for \<^verbatim>\<open>Bull case: +15% upside, 30% probability\<close> the
  pattern captures \<^verbatim>\<open>+15\<close> and \<^verbatim>\<open>30\<close>, the numbers 15 and 30, and the result holds
  the doubles written \<^verbatim>\<open>0.15\<close> and \<^verbatim>\<open>0.3\<close>.
\<close>

theorem percent_rescaled_counterexample:
  "scenarios_of (''Scenarios:'' @ [CHR 0x0A] @ ''Bull case: +15% upside, 30% probability'') =
     [(''bull'', JObj [(''return'', JNum (5404319552844595 / 36028797018963968)),
                       (''prob'', JNum (5404319552844595 / 18014398509481984))])] \<and>
   first_match (scenario_at ''bull'') ([CHR 0x0A] @ ''Bull case: +15% upside, 30% probability'') =
     Some (''+15'', ''30'') \<and>
   parseFloat ''+15'' = JNum 15 \<and> parseFloat ''30'' = JNum 30"
  by code_simp

section \<open>The streaming session\<close>

lemma quiet_terminated_once: "quiet xs \<Longrightarrow> terminated_once xs"
  by (induction xs) (auto simp: quiet_def)

lemma quiet_snoc: "quiet xs \<Longrightarrow> \<not> is_terminal x \<Longrightarrow> quiet (xs @ [x])"
  by (simp add: quiet_def)

lemma quiet_then_terminal:
  "quiet xs \<Longrightarrow> is_terminal t \<Longrightarrow> terminated_once (xs @ [t, DataLine d])"
  by (induction xs) (auto simp: quiet_def)

lemma terminated_once_count: "terminated_once xs \<Longrightarrow> length (filter is_terminal xs) \<le> 1"
proof (induction xs)
  case Nil
  show ?case by simp
next
  case (Cons x xs)
  show ?case
  proof (cases "is_terminal x")
    case True
    with Cons.prems obtain d where "xs = [DataLine d]"
      by (auto split: list.splits sse.splits)
    then show ?thesis using True by (simp add: is_terminal_def)
  next
    case False
    with Cons show ?thesis by simp
  qed
qed

lemma not_terminal_simps [simp]:
  "\<not> is_terminal (DataLine d)" "\<not> is_terminal (KeepAlive t)" "\<not> is_terminal (EventLine ''progress'')"
  "is_terminal (EventLine ''complete'')" "is_terminal (EventLine ''error'')"
  by (simp_all add: is_terminal_def)

lemma inv_write:
  assumes "session_inv done s" and "\<not> writableEnded s" and "\<not> is_terminal x"
  shows "session_inv done (res_write x s)" and "\<not> writableEnded (res_write x s)"
  using assms by (auto simp: session_inv_def res_write_def quiet_snoc)

lemma inv_mark_closed: "session_inv done s \<Longrightarrow> session_inv done (mark_closed s)"
  by (auto simp: session_inv_def mark_closed_def)

lemma inv_keepAlive: "session_inv done s \<Longrightarrow> session_inv done (keepAlive t s)"
  by (auto simp: keepAlive_def inv_mark_closed inv_write) (auto simp: session_inv_def)

lemma inv_on_req_close: "session_inv done s \<Longrightarrow> session_inv done (on_req_close s)"
  by (simp add: on_req_close_def inv_mark_closed)

lemma inv_on_res_close:
  "session_inv done s \<Longrightarrow> session_inv done (on_res_close (s\<lparr>closed := True\<rparr>))"
  by (auto simp: on_res_close_def) (auto simp: session_inv_def mark_closed_def)

lemma inv_destroyed: "session_inv done s \<Longrightarrow> session_inv done (s\<lparr>destroyed := True\<rparr>)"
  by (auto simp: session_inv_def)

lemma inv_sendProgress: "session_inv done s \<Longrightarrow> session_inv done (sendProgress p s)"
proof -
  assume i: "session_inv done s"
  show ?thesis
  proof (cases "responseEnded s \<or> destroyed s \<or> closed s \<or> writableEnded s")
    case True
    then show ?thesis using i by (auto simp: sendProgress_def inv_mark_closed)
  next
    case False
    let ?s1 = "if \<not> connectionAlive s \<and> \<not> responseEnded s then s\<lparr>connectionAlive := True\<rparr> else s"
    have 1: "session_inv done ?s1" and 2: "\<not> writableEnded ?s1"
      using i False by (auto simp: session_inv_def)
    have 3: "session_inv done (res_write (EventLine ''progress'') ?s1)"
      and 4: "\<not> writableEnded (res_write (EventLine ''progress'') ?s1)"
      using inv_write [OF 1 2, of "EventLine ''progress''"] by simp_all
    have "session_inv done (res_write (DataLine (progress_js p)) (res_write (EventLine ''progress'') ?s1))"
      using inv_write(1) [OF 3 4, of "DataLine (progress_js p)"] by simp
    then show ?thesis using False by (simp add: sendProgress_def Let_def)
  qed
qed

lemma inv_sendProgress_all:
  "session_inv done s \<Longrightarrow> session_inv done (foldl (\<lambda>s p. sendProgress p s) s ps)"
  by (induction ps arbitrary: s) (simp_all add: inv_sendProgress)

lemma inv_terminal:
  assumes "session_inv False s" and "is_terminal t"
  shows "session_inv True (res_end (res_write (DataLine d) (res_write t (s\<lparr>keepAliveInterval := False\<rparr>))))"
proof -
  have c: "quiet (calls s)" using assms(1) by (simp add: session_inv_def)
  have w: "quiet (wire s) \<or> (terminated_once (wire s) \<and> writableEnded s)"
    using assms(1) by (simp add: session_inv_def)
  have "terminated_once (calls s @ [t, DataLine d])"
    using quiet_then_terminal [OF c assms(2)] .
  moreover have "quiet (wire s) \<Longrightarrow> terminated_once (wire s @ [t, DataLine d])"
    using quiet_then_terminal [OF _ assms(2)] .
  moreover have "quiet (wire s) \<Longrightarrow> terminated_once (wire s)" by (rule quiet_terminated_once)
  ultimately show ?thesis
    using w by (auto simp: session_inv_def res_end_def res_write_def)
qed

lemma inv_reaction: "session_inv False s \<Longrightarrow> session_inv True (reaction v s)"
  by (cases v) (simp_all add: reaction_def on_fulfilled_def on_rejected_def Let_def inv_terminal)

lemma emit_lines_frame:
  "settled (fst (emit_lines E sink ls (j, cs))) = settled j \<and>
   killed (fst (emit_lines E sink ls (j, cs))) = killed j \<and>
   uncaught (fst (emit_lines E sink ls (j, cs))) = uncaught j \<and>
   spawned (fst (emit_lines E sink ls (j, cs))) = spawned j"
  by (induction ls arbitrary: j cs) (simp_all add: Let_def)

lemma job_step_settled_mono:
  "settled j \<noteq> None \<Longrightarrow> settled (fst (job_step E sink e j)) = settled j"
  by (cases e)
     (auto simp: on_stdout_def on_stderr_def on_close_def on_error_def on_timeout_def Let_def
        emit_lines_frame settle_def split: sum.splits)

lemma inv_deliver_job:
  assumes "session_inv (settled before \<noteq> None) s"
    and "settled before \<noteq> None \<longrightarrow> settled (fst r) \<noteq> None"
  shows "session_inv (settled (job_of (deliver_job before r s)) \<noteq> None)
           (session_of (deliver_job before r s))"
proof -
  let ?s1 = "foldl (\<lambda>s p. sendProgress p s) s (snd r)"
  have 1: "session_inv (settled before \<noteq> None) ?s1"
    using assms(1) by (rule inv_sendProgress_all)
  show ?thesis
  proof (cases "settled before")
    case None
    show ?thesis
    proof (cases "settled (fst r)")
      case n: None
      then show ?thesis using 1 None by (simp add: deliver_job_def)
    next
      case (Some v)
      then show ?thesis
        using 1 None inv_reaction [of ?s1 v] by (simp add: deliver_job_def)
    qed
  next
    case (Some v)
    then obtain w where "settled (fst r) = Some w" using assms(2) by auto
    then show ?thesis using 1 Some by (simp add: deliver_job_def)
  qed
qed

lemma system_inv_step: "system_inv sys \<Longrightarrow> system_inv (step_event E ev sys)"
proof (cases ev)
  case (Process e)
  assume "system_inv sys"
  then show ?thesis
    unfolding Process system_inv_def step_event.simps
    by (rule inv_deliver_job) (simp add: job_step_settled_mono)
qed (simp_all add: system_inv_def inv_keepAlive inv_on_req_close inv_on_res_close
       inv_mark_closed inv_destroyed)

lemma system_inv_run: "system_inv sys \<Longrightarrow> system_inv (run E evs sys)"
  unfolding run_def by (induction evs arbitrary: sys) (simp_all add: system_inv_step)

lemma system_inv_start: "system_inv (start_stream E TICKER t0)"
  unfolding system_inv_def start_stream_def
proof (rule inv_deliver_job)
  show "session_inv (settled \<lparr>spawned = False, stdout = [], stderr = [], progressMessages = [],
        processStarted = False, reads = 0, settled = None, killed = False,
        watchdog = False, uncaught = []\<rparr> \<noteq> None) (open_stream TICKER t0)"
    by (simp add: session_inv_def open_stream_def res_write_def quiet_def)
qed simp

text \<open>
  Claim C1. Whatever the events of a streaming request and their order (progress lines
  after the promise has settled, ticks of the interval, closes and errors of the
  transport, a watchdog that fires after the exit), the writes of the route handler end
  in at most one terminal event, \<^verbatim>\<open>complete\<close> or \<^verbatim>\<open>error\<close>: its event line, its data
  line, and nothing after them, neither a progress event nor a keep-alive. This holds for
  the calls of \<^verbatim>\<open>res.write\<close> and so for what reaches the transport. A request whose
  set-up throws gets its one \<^verbatim>\<open>error\<close> event and nothing else.
\<close>

theorem one_terminal_event_then_silence:
  "terminated_once (calls (session_of (run E evs (start_stream E TICKER t0)))) \<and>
   terminated_once (wire (session_of (run E evs (start_stream E TICKER t0)))) \<and>
   length (filter is_terminal (calls (session_of (run E evs (start_stream E TICKER t0))))) \<le> 1 \<and>
   length (filter is_terminal (wire (session_of (run E evs (start_stream E TICKER t0))))) \<le> 1 \<and>
   terminated_once (calls (setup_failure msg)) \<and> terminated_once (wire (setup_failure msg))"
proof -
  have f: "terminated_once (calls (setup_failure msg)) \<and> terminated_once (wire (setup_failure msg))"
    by (simp add: setup_failure_def res_end_def res_write_def)
  let ?s = "session_of (run E evs (start_stream E TICKER t0))"
  have "system_inv (run E evs (start_stream E TICKER t0))"
    using system_inv_start by (rule system_inv_run)
  then have "terminated_once (calls ?s)" and "terminated_once (wire ?s)"
    by (auto simp: system_inv_def session_inv_def quiet_terminated_once)
  then show ?thesis using terminated_once_count f by blast
qed

lemma late_progress_example:
  "calls (session_of (run example_env
       [Process (ProcClose (Some 3)), Process (StdoutData (''late line'' @ [CHR 0x0A])), Tick 15,
        Process Timeout]
       (start_stream example_env ''AAPL'' 0))) =
     [EventLine ''progress'',
      DataLine (JObj [(''step'', JStr ''system''),
                      (''message'', JStr ''Starting analysis for AAPL...''),
                      (''timestamp'', JNum 0)]),
      EventLine ''progress'',
      DataLine (JObj [(''step'', JStr ''system''),
                      (''message'', JStr ''Python process started, initializing...''),
                      (''timestamp'', JNum 0)]),
      EventLine ''error'',
      DataLine (JObj [(''status'', JStr ''error''),
                      (''message'', JStr ''Python process exited with code 3'')])]"
  by code_simp

section \<open>The job of an abandoned session\<close>

lemma job_of_deliver_job: "job_of (deliver_job before r s) = fst r"
  by (simp add: deliver_job_def Let_def)

lemma job_of_step_event:
  "job_of (step_event E ev sys) =
     (case ev of Process e \<Rightarrow> fst (job_step E True e (job_of sys)) | _ \<Rightarrow> job_of sys)"
  by (cases ev) (simp_all add: job_of_deliver_job)

lemma job_of_run: "job_of (run E evs sys) = job_run E (process_events evs) (job_of sys)"
proof (induction evs arbitrary: sys)
  case Nil
  show ?case by (simp add: run_def job_run_def)
next
  case (Cons ev evs)
  have "job_of (run E (ev # evs) sys) = job_run E (process_events evs) (job_of (step_event E ev sys))"
    using Cons.IH [of "step_event E ev sys"] by (simp add: run_def)
  then show ?case
    by (cases ev) (simp_all add: job_of_step_event job_run_def del: step_event.simps)
qed

lemma job_step_killed:
  "e \<noteq> Timeout \<Longrightarrow> killed (fst (job_step E sink e j)) = killed j"
  by (cases e)
     (auto simp: on_stdout_def on_stderr_def on_close_def on_error_def Let_def
        emit_lines_frame settle_def split: sum.splits)

lemma job_run_killed: "Timeout \<notin> set es \<Longrightarrow> killed (job_run E es j) = killed j"
proof (induction es arbitrary: j)
  case Nil
  show ?case by (simp add: job_run_def)
next
  case (Cons e es)
  then have "e \<noteq> Timeout" and "Timeout \<notin> set es" by auto
  then have "killed (job_run E es (fst (job_step E True e j))) = killed j"
    using Cons.IH [of "fst (job_step E True e j)"] job_step_killed [of e E True j] by simp
  then show ?case by (simp add: job_run_def)
qed

lemma process_events_Timeout:
  "Process Timeout \<notin> set evs \<Longrightarrow> Timeout \<notin> set (process_events evs)"
  by (induction evs rule: process_events.induct) auto

lemma job_step_uncaught: "uncaught (fst (job_step E sink e j)) = uncaught j"
proof (cases e)
  case (ProcClose code)
  obtain r where "resolve_ok E (stdout j) (progressMessages j) = Inr r"
    using resolve_ok_returns by blast
  then show ?thesis by (simp add: ProcClose on_close_def settle_def)
qed (auto simp: on_stdout_def on_stderr_def on_error_def on_timeout_def Let_def
       emit_lines_frame settle_def)

lemma job_run_uncaught: "uncaught (job_run E es j) = uncaught j"
  unfolding job_run_def by (induction es arbitrary: j) (simp_all add: job_step_uncaught)

lemma start_stream_job:
  "killed (job_of (start_stream E TICKER t0)) = False \<and>
   uncaught (job_of (start_stream E TICKER t0)) = []"
  by (simp add: start_stream_def job_of_deliver_job runAnalysis_def settle_def Let_def)

lemma gone_res_write: "destroyed s \<Longrightarrow> destroyed (res_write x s) \<and> wire (res_write x s) = wire s"
  by (simp add: res_write_def)

lemma gone_sendProgress:
  "destroyed s \<Longrightarrow> destroyed (sendProgress p s) \<and> wire (sendProgress p s) = wire s"
  by (simp add: sendProgress_def mark_closed_def)

lemma gone_sendProgress_all:
  "destroyed s \<Longrightarrow>
   destroyed (foldl (\<lambda>s p. sendProgress p s) s ps) \<and>
   wire (foldl (\<lambda>s p. sendProgress p s) s ps) = wire s"
  by (induction ps arbitrary: s) (simp_all add: gone_sendProgress)

lemma gone_reaction: "destroyed s \<Longrightarrow> destroyed (reaction v s) \<and> wire (reaction v s) = wire s"
  by (cases v)
     (simp_all add: reaction_def on_fulfilled_def on_rejected_def Let_def res_end_def res_write_def)

lemma gone_step_event:
  assumes "destroyed (session_of sys)"
  shows "destroyed (session_of (step_event E ev sys)) \<and>
         wire (session_of (step_event E ev sys)) = wire (session_of sys)"
proof (cases ev)
  case (Process e)
  let ?r = "job_step E True e (job_of sys)"
  let ?s1 = "foldl (\<lambda>s p. sendProgress p s) (session_of sys) (snd ?r)"
  have 1: "destroyed ?s1 \<and> wire ?s1 = wire (session_of sys)"
    using assms by (rule gone_sendProgress_all)
  show ?thesis
    using 1 gone_reaction [of ?s1]
    by (auto simp: Process deliver_job_def Let_def split: option.splits)
qed (use assms in \<open>simp_all add: keepAlive_def on_req_close_def on_res_close_def mark_closed_def
       res_write_def\<close>)

lemma gone_run:
  "destroyed (session_of sys) \<Longrightarrow>
   destroyed (session_of (run E evs sys)) \<and>
   wire (session_of (run E evs sys)) = wire (session_of sys)"
proof (induction evs arbitrary: sys)
  case Nil
  then show ?case by (simp add: run_def)
next
  case (Cons ev evs)
  have "destroyed (session_of (step_event E ev sys))"
    and "wire (session_of (step_event E ev sys)) = wire (session_of sys)"
    using gone_step_event [OF Cons.prems] by simp_all
  then show ?case
    using Cons.IH [of "step_event E ev sys"] by (simp add: run_def)
qed

text \<open>
  Claim C2. The job of a streaming request depends on the events of its subprocess
  alone: the closes, errors and ticks of the transport leave it as it is, at any moment.
  \<^verbatim>\<open>kill\<close> is called by the watchdog only, so in a run where the watchdog does not
  fire the subprocess is never terminated. No exception leaves a handler of the job. Once
  the transport is gone nothing reaches it any more: the result of the job, when it
  comes, is dropped.
\<close>

theorem closing_the_transport_never_stops_the_job:
  "job_of (run E evs sys) = job_run E (process_events evs) (job_of sys) \<and>
   (Process Timeout \<notin> set evs \<longrightarrow> \<not> killed (job_of (run E evs (start_stream E TICKER t0)))) \<and>
   uncaught (job_of (run E evs (start_stream E TICKER t0))) = [] \<and>
   (destroyed (session_of sys) \<longrightarrow> wire (session_of (run E evs sys)) = wire (session_of sys))"
proof (intro conjI impI)
  show "job_of (run E evs sys) = job_run E (process_events evs) (job_of sys)"
    by (rule job_of_run)
  show "uncaught (job_of (run E evs (start_stream E TICKER t0))) = []"
    by (simp add: job_of_run job_run_uncaught start_stream_job)
next
  assume "Process Timeout \<notin> set evs"
  then have "Timeout \<notin> set (process_events evs)" by (rule process_events_Timeout)
  then show "\<not> killed (job_of (run E evs (start_stream E TICKER t0)))"
    by (simp add: job_of_run job_run_killed start_stream_job)
next
  assume "destroyed (session_of sys)"
  then show "wire (session_of (run E evs sys)) = wire (session_of sys)"
    using gone_run by blast
qed

text \<open>
  A client that disconnects after the first progress line: the subprocess is not killed,
  and its later exit writes nothing to the transport. The promise is settled with the
  result all the same (\<open>abandoned_session_example\<close>).
\<close>

theorem closing_the_transport_never_stops_the_job_witness:
  "\<not> killed (job_of (run example_env
       [Process (StdoutData (''[Agent] x'' @ [CHR 0x0A])), TransportDown, ResClose, ReqClose,
        Process (ProcClose (Some 0))]
       (start_stream example_env ''AAPL'' 0))) \<and>
   wire (session_of (run example_env [ResClose, ReqClose, Process (ProcClose (Some 0))]
       (run example_env [Process (StdoutData (''[Agent] x'' @ [CHR 0x0A])), TransportDown]
          (start_stream example_env ''AAPL'' 0)))) =
   wire (session_of
       (run example_env [Process (StdoutData (''[Agent] x'' @ [CHR 0x0A])), TransportDown]
          (start_stream example_env ''AAPL'' 0)))"
proof -
  let ?evs = "[Process (StdoutData (''[Agent] x'' @ [CHR 0x0A])), TransportDown, ResClose, ReqClose,
        Process (ProcClose (Some 0))]"
  let ?down = "run example_env [Process (StdoutData (''[Agent] x'' @ [CHR 0x0A])), TransportDown]
          (start_stream example_env ''AAPL'' 0)"
  have 1: "Process Timeout \<notin> set ?evs" by simp
  have 2: "destroyed (session_of ?down)" by code_simp
  have "\<not> killed (job_of (run example_env ?evs (start_stream example_env ''AAPL'' 0)))"
    using closing_the_transport_never_stops_the_job [of example_env ?evs _ "''AAPL''" 0] 1
    by blast
  moreover have "wire (session_of (run example_env [ResClose, ReqClose, Process (ProcClose (Some 0))] ?down)) =
                 wire (session_of ?down)"
    using closing_the_transport_never_stops_the_job
      [of example_env "[ResClose, ReqClose, Process (ProcClose (Some 0))]" ?down] 2
    by blast
  ultimately show ?thesis by blast
qed

lemma abandoned_session_example:
  "settled (job_of (run example_env
       [Process (StdoutData (''Recommendation: BUY'' @ [CHR 0x0A])), TransportDown, ResClose,
        ReqClose, Tick 15, Process (ProcClose (Some 0))]
       (start_stream example_env ''AAPL'' 0))) =
     Some (Inr (JObj [(''recommendation'', JStr ''BUY''), (''confidence_score'', JNum 0),
                      (''scenarios'', JObj []), (''memo'', JStr []),
                      (''progressMessages'',
                       JArr [JObj [(''step'', JStr ''system''),
                                   (''message'', JStr ''Recommendation: BUY''),
                                   (''timestamp'', JNum 2)]] [])]))"
  by code_simp

end
